theory Spec2Isabelle
  imports Complex_Main "HOL-Library.Word"
begin

unbundle bit_operations_syntax

section \<open>Bytes and the SHA-256 digest\<close>

text \<open>
  File content is an opaque byte sequence. The browser primitive
  \<^verbatim>\<open>crypto.subtle.digest('SHA-256', buffer)\<close> is used by every fingerprint computation
  of the program; it is modelled after FIPS 180-4. A 32-bit word is an \<open>int\<close> in
  \<open>[0, 2^32)\<close> with the wrap-around of every addition and rotation written out, so that
  digests of concrete buffers can be computed by rewriting.
\<close>

type_synonym byte = "8 word"

definition add32 :: "int \<Rightarrow> int \<Rightarrow> int" where
  "add32 a b = (a + b) mod 2 ^ 32"

definition rotr :: "nat \<Rightarrow> int \<Rightarrow> int" where
  "rotr n x = (x div 2 ^ n) OR ((x * 2 ^ (32 - n)) mod 2 ^ 32)"

definition shr :: "nat \<Rightarrow> int \<Rightarrow> int" where
  "shr n x = x div 2 ^ n"

definition not32 :: "int \<Rightarrow> int" where
  "not32 x = x XOR 0xffffffff"

definition Ch :: "int \<Rightarrow> int \<Rightarrow> int \<Rightarrow> int" where
  "Ch x y z = (x AND y) XOR (not32 x AND z)"

definition Maj :: "int \<Rightarrow> int \<Rightarrow> int \<Rightarrow> int" where
  "Maj x y z = (x AND y) XOR (x AND z) XOR (y AND z)"

definition bsig0 :: "int \<Rightarrow> int" where
  "bsig0 x = rotr 2 x XOR rotr 13 x XOR rotr 22 x"

definition bsig1 :: "int \<Rightarrow> int" where
  "bsig1 x = rotr 6 x XOR rotr 11 x XOR rotr 25 x"

definition ssig0 :: "int \<Rightarrow> int" where
  "ssig0 x = rotr 7 x XOR rotr 18 x XOR shr 3 x"

definition ssig1 :: "int \<Rightarrow> int" where
  "ssig1 x = rotr 17 x XOR rotr 19 x XOR shr 10 x"

text \<open>
  The round constants (the first 32 bits of the fractional parts of the cube roots of the
  first 64 primes) and the initial hash value (likewise for the square roots of the first 8
  primes), in decimal.
\<close>

definition K256 :: "int list" where
  "K256 =
   [1116352408, 1899447441, 3049323471, 3921009573, 961987163, 1508970993,
    2453635748, 2870763221, 3624381080, 310598401, 607225278, 1426881987,
    1925078388, 2162078206, 2614888103, 3248222580, 3835390401, 4022224774,
    264347078, 604807628, 770255983, 1249150122, 1555081692, 1996064986,
    2554220882, 2821834349, 2952996808, 3210313671, 3336571891, 3584528711,
    113926993, 338241895, 666307205, 773529912, 1294757372, 1396182291,
    1695183700, 1986661051, 2177026350, 2456956037, 2730485921, 2820302411,
    3259730800, 3345764771, 3516065817, 3600352804, 4094571909, 275423344,
    430227734, 506948616, 659060556, 883997877, 958139571, 1322822218,
    1537002063, 1747873779, 1955562222, 2024104815, 2227730452, 2361852424,
    2428436474, 2756734187, 3204031479, 3329325298]"

type_synonym hstate = "int \<times> int \<times> int \<times> int \<times> int \<times> int \<times> int \<times> int"

definition H256 :: hstate where
  "H256 = (1779033703, 3144134277, 1013904242, 2773480762,
           1359893119, 2600822924, 528734635, 1541459225)"

text \<open>Padding: the byte \<open>0x80\<close>, zero bytes up to 56 modulo 64, the bit length in 8 bytes.\<close>

definition be64 :: "nat \<Rightarrow> byte list" where
  "be64 n = map (\<lambda>i. word_of_int (int n div 2 ^ (8 * i))) [7, 6, 5, 4, 3, 2, 1, 0]"

definition sha_pad :: "byte list \<Rightarrow> byte list" where
  "sha_pad m = m @ [0x80] @ replicate ((119 - length m mod 64) mod 64) 0 @ be64 (8 * length m)"

fun be_words :: "byte list \<Rightarrow> int list" where
  "be_words (a # b # c # d # bs) =
     (((uint a * 256 + uint b) * 256 + uint c) * 256 + uint d) # be_words bs"
| "be_words _ = []"

text \<open>The message schedule: 16 words of the block, extended to 64.\<close>

fun extend :: "nat \<Rightarrow> int list \<Rightarrow> int list" where
  "extend 0 w = w"
| "extend (Suc n) w =
     extend n (w @ [add32 (add32 (add32 (ssig1 (w ! (length w - 2))) (w ! (length w - 7)))
                      (ssig0 (w ! (length w - 15)))) (w ! (length w - 16))])"

definition sha_round :: "hstate \<Rightarrow> int \<times> int \<Rightarrow> hstate" where
  "sha_round s kw =
     (case s of (a, b, c, d, e, f, g, h) \<Rightarrow>
      (let T1 = add32 (add32 (add32 (add32 h (bsig1 e)) (Ch e f g)) (fst kw)) (snd kw);
           T2 = add32 (bsig0 a) (Maj a b c)
       in (add32 T1 T2, a, b, c, add32 d T1, e, f, g)))"

definition add_state :: "hstate \<Rightarrow> hstate \<Rightarrow> hstate" where
  "add_state s t =
     (case s of (a, b, c, d, e, f, g, h) \<Rightarrow>
      case t of (a', b', c', d', e', f', g', h') \<Rightarrow>
        (add32 a a', add32 b b', add32 c c', add32 d d',
         add32 e e', add32 f f', add32 g g', add32 h h'))"

definition compress :: "hstate \<Rightarrow> byte list \<Rightarrow> hstate" where
  "compress H block =
     add_state H (foldl sha_round H (zip K256 (extend 48 (be_words block))))"

function blocks :: "byte list \<Rightarrow> byte list list" where
  "blocks bs = (if length bs < 64 then [] else take 64 bs # blocks (drop 64 bs))"
  by pat_completeness auto
termination
  by (relation "measure length") auto

declare blocks.simps [simp del]

definition word_bytes :: "int \<Rightarrow> byte list" where
  "word_bytes w = map (\<lambda>i. word_of_int (w div 2 ^ (8 * i))) [3, 2, 1, 0]"

definition state_words :: "hstate \<Rightarrow> int list" where
  "state_words s = (case s of (a, b, c, d, e, f, g, h) \<Rightarrow> [a, b, c, d, e, f, g, h])"

definition sha256 :: "byte list \<Rightarrow> byte list" where
  "sha256 m = concat (map word_bytes (state_words (foldl compress H256 (blocks (sha_pad m)))))"

text \<open>
  The hexadecimal rendering
  \<^verbatim>\<open>Array.from(new Uint8Array(h)).map(b => b.toString(16).padStart(2, '0')).join('')\<close>.
\<close>

definition hexdigit :: "nat \<Rightarrow> char" where
  "hexdigit n = ''0123456789abcdef'' ! n"

definition toHex :: "byte list \<Rightarrow> string" where
  "toHex bs = concat (map (\<lambda>b. [hexdigit (unat b div 16), hexdigit (unat b mod 16)]) bs)"

section \<open>The streaming chunker (memoryOptimizedProcessor.ts)\<close>

text \<open>
  A \<^verbatim>\<open>File\<close> has a name, its bytes and a MIME type; \<^verbatim>\<open>file.size\<close> is the number of bytes.
  Sizes, indices and chunk sizes are natural numbers: the program only ever produces
  non-negative integers far below \<open>2^53\<close>, where JavaScript numbers are exact.
\<close>

record File =
  f_name :: string
  f_content :: "byte list"
  f_type :: string

definition f_size :: "File \<Rightarrow> nat" where
  "f_size f = length (f_content f)"

text \<open>
  \<^verbatim>\<open>blob.slice(start, end)\<close>: the bytes from \<open>start\<close> up to \<open>end\<close>, both clamped to
  the size, empty when \<open>end \<le> start\<close>.
\<close>

definition blob_slice :: "nat \<Rightarrow> nat \<Rightarrow> 'a list \<Rightarrow> 'a list" where
  "blob_slice start end bs = take (end - start) (drop start bs)"

text \<open>
  \<^verbatim>\<open>Math.ceil(a / b)\<close> on non-negative integers with \<open>b > 0\<close>, where it is the ceiling
  of the real quotient (lemma \<open>ceilDiv_ceiling\<close>). It is used with \<open>b > 0\<close> only: for
  \<open>b = 0\<close> the quotient of the program is \<^verbatim>\<open>Infinity\<close> or \<^verbatim>\<open>NaN\<close>.
\<close>

definition ceilDiv :: "nat \<Rightarrow> nat \<Rightarrow> nat" where
  "ceilDiv a b = (a + b - 1) div b"

definition KiB :: nat where "KiB = 1024"
definition MiB :: nat where "MiB = 1024 * 1024"
definition GiB :: nat where "GiB = 1024 * 1024 * 1024"

definition getOptimalChunkSize :: "nat \<Rightarrow> nat" where
  "getOptimalChunkSize fileSize =
     (if fileSize < 10 * 1024 * 1024 then 256 * 1024
      else if fileSize < 100 * 1024 * 1024 then 512 * 1024
      else if fileSize < 1024 * 1024 * 1024 then 1024 * 1024
      else if fileSize < 10 * 1024 * 1024 * 1024 then 2 * 1024 * 1024
      else 4 * 1024 * 1024)"

definition readFileChunk :: "File \<Rightarrow> nat \<Rightarrow> nat \<Rightarrow> byte list" where
  "readFileChunk f chunkIndex chunkSize =
     (let start = chunkIndex * chunkSize;
          end = min (start + chunkSize) (f_size f)
      in blob_slice start end (f_content f))"

text \<open>
  \<^verbatim>\<open>processFileStream(file, options)\<close>. The options carry the chunk size and the abort
  signal; \<open>po_aborted i\<close> is what \<^verbatim>\<open>signal?.aborted\<close> reads at the head of iteration
  \<open>i\<close>. The loop state holds the per-chunk digests pushed to \<^verbatim>\<open>combinedHashes\<close>, the
  \<open>(chunkIndex, chunkBuffer)\<close> pairs handed to \<^verbatim>\<open>onChunkProcessed\<close>, and
  \<^verbatim>\<open>processedChunks\<close>. A raised \<^verbatim>\<open>Error('File processing aborted')\<close> is the outcome
  \<open>Raised\<close>.

  For \<open>chunkSize = 0\<close> the quotient \<^verbatim>\<open>file.size / chunkSize\<close> is not a chunk count. For
  an empty file it is \<^verbatim>\<open>NaN\<close>: the comparison \<^verbatim>\<open>chunkIndex < totalChunks\<close> is false, the
  loop body never runs, and the function returns the digest of the empty combination with
  \<^verbatim>\<open>totalChunks: NaN\<close> and \<^verbatim>\<open>fileSize: 0\<close>; this is the outcome
  \<open>ReturnedNaN fileHash fileSize\<close>. For a file with bytes it is \<^verbatim>\<open>Infinity\<close>: the loop reads
  empty slices for ever, unless some iteration finds the signal aborted and throws; a run
  that never returns is the outcome \<open>NoResult\<close>.
\<close>

record processingOptions =
  po_chunkSize :: nat
  po_aborted :: "nat \<Rightarrow> bool"

record fileStreamResult =
  r_fileHash :: string
  r_totalChunks :: nat
  r_fileSize :: nat

record chunker_state =
  combinedHashes :: "byte list list"
  onChunkProcessed :: "(nat \<times> byte list) list"
  processedChunks :: nat

datatype procError = ProcessingAborted

datatype 'a outcome = NoResult | Raised procError | Returned 'a | ReturnedNaN string nat

function processLoop ::
  "File \<Rightarrow> processingOptions \<Rightarrow> nat \<Rightarrow> nat \<Rightarrow> chunker_state \<Rightarrow> procError + chunker_state" where
  "processLoop f opts nchunks chunkIndex st =
     (if chunkIndex < nchunks then
        if po_aborted opts chunkIndex then Inl ProcessingAborted
        else
          let start = chunkIndex * po_chunkSize opts;
              end = min (start + po_chunkSize opts) (f_size f);
              chunkBuffer = blob_slice start end (f_content f)
          in processLoop f opts nchunks (Suc chunkIndex)
               (st\<lparr>combinedHashes := combinedHashes st @ [sha256 chunkBuffer],
                   onChunkProcessed := onChunkProcessed st @ [(chunkIndex, chunkBuffer)],
                   processedChunks := Suc (processedChunks st)\<rparr>)
      else Inr st)"
  by pat_completeness auto
termination
  by (relation "measure (\<lambda>(f, opts, nchunks, chunkIndex, st). nchunks - chunkIndex)") auto

declare processLoop.simps [simp del]

text \<open>
  \<^verbatim>\<open>combinedHashBuffer.set(hash, index * 32)\<close> on a zero-filled buffer of
  \<open>combinedHashes.length * 32\<close> bytes, for every digest in turn.
\<close>

definition buffer_set :: "'a list \<Rightarrow> 'a list \<Rightarrow> nat \<Rightarrow> 'a list" where
  "buffer_set buf xs offset = take offset buf @ xs @ drop (offset + length xs) buf"

definition combineHashes :: "byte list list \<Rightarrow> byte list" where
  "combineHashes hs =
     foldl (\<lambda>buf (index, hash). buffer_set buf hash (index * 32))
       (replicate (length hs * 32) 0) (zip [0..<length hs] hs)"

definition processFileStream ::
  "File \<Rightarrow> processingOptions \<Rightarrow> (fileStreamResult \<times> (nat \<times> byte list) list) outcome" where
  "processFileStream f opts =
     (if po_chunkSize opts = 0 then
        if f_size f = 0 then ReturnedNaN (toHex (sha256 (combineHashes []))) (f_size f)
        else if \<exists>i. po_aborted opts i then Raised ProcessingAborted
        else NoResult
      else
        let nchunks = ceilDiv (f_size f) (po_chunkSize opts)
        in case processLoop f opts nchunks 0
                  \<lparr>combinedHashes = [], onChunkProcessed = [], processedChunks = 0\<rparr> of
             Inl e \<Rightarrow> Raised e
           | Inr st \<Rightarrow>
               Returned
                 (\<lparr>r_fileHash = toHex (sha256 (combineHashes (combinedHashes st))),
                   r_totalChunks = nchunks,
                   r_fileSize = f_size f\<rparr>,
                  onChunkProcessed st))"

text \<open>Options of a run that is never aborted.\<close>

definition plainOptions :: "nat \<Rightarrow> processingOptions" where
  "plainOptions c = \<lparr>po_chunkSize = c, po_aborted = (\<lambda>_. False)\<rparr>"

section \<open>Wire messages\<close>

text \<open>
  The messages of the protocol, with the fields the two endpoints read. The \<^verbatim>\<open>data\<close> field of
  a \<^verbatim>\<open>file-chunk\<close> is binary (an \<^verbatim>\<open>ArrayBuffer\<close>, a \<^verbatim>\<open>Uint8Array\<close>, a serialised
  \<^verbatim>\<open>Buffer\<close>, an array of bytes), \<^verbatim>\<open>null\<close>, or something else that the receiver cannot
  convert. Error texts are kept as structured values; timestamps are left out. Messages that
  neither transfer path looks at are \<open>OtherMessage\<close>.

  The errors of the sender: the three that the transfer loop and the final wait throw, the
  failure of the hash generation with its cause, and the \<^verbatim>\<open>TypeError\<close> of calling
  \<^verbatim>\<open>file.slice\<close> on an object that has no such method. The errors of the receiver: its own
  checks, and the error text it takes over from a \<^verbatim>\<open>transfer-error\<close> of the sender.
\<close>

datatype payload = Binary "byte list" | Null | Unsupported

datatype hashFailure = InstanceofNotCallable | NotFileOrBlob | FileReaderFailed

datatype sendError =
    ConnectionLost
  | ChunkTimeout nat
  | FinalConfirmationTimeout
  | HashGenerationFailed hashFailure
  | SliceNotAFunction

datatype recvError =
    InvalidChunkData
  | SenderReported sendError
  | EmptyChunk nat
  | MissingChunks "nat list"
  | CorruptedChunks "nat list"
  | SizeMismatch nat nat
  | BlobSizeMismatch nat nat
  | IntegrityMismatch
  | CompletionFailure nat

datatype msg =
    RequestFile string
  | FileStart string nat string nat string
  | FileChunk string nat nat payload bool
  | ChunkAck string nat
  | FileComplete string bool nat string
  | FileError string recvError
  | TransferError string sendError
  | OtherMessage

text \<open>
  \<open>FileStart fileName fileSize fileType totalChunks fileHash\<close>,
  \<open>FileChunk fileName chunkIndex totalChunks data isLast\<close>,
  \<open>ChunkAck fileName chunkIndex\<close>,
  \<open>FileComplete fileName verified fileSize fileHash\<close>.
\<close>

section \<open>The sender (FileUploader.tsx)\<close>

text \<open>
  The value that \<^verbatim>\<open>sendFileInChunks(conn, file)\<close> receives as \<^verbatim>\<open>file\<close> is either a \<^verbatim>\<open>File\<close>
  of the DOM (a \<^verbatim>\<open>Blob\<close>, with \<^verbatim>\<open>arrayBuffer\<close> and \<^verbatim>\<open>slice\<close>), or the object that \<^verbatim>\<open>onDrop\<close>
  stores in the component state \<^verbatim>\<open>files\<close>: the spread copy \<^verbatim>\<open>{...file, id, preview, size, name, type}\<close>,
  a plain object with the properties \<^verbatim>\<open>name\<close>, \<^verbatim>\<open>size\<close> and \<^verbatim>\<open>type\<close> and with none of the
  methods of a \<^verbatim>\<open>Blob\<close>. The \<^verbatim>\<open>request-file\<close> handler passes elements of \<^verbatim>\<open>files\<close>. The
  \<^verbatim>\<open>id\<close> and the \<^verbatim>\<open>preview\<close> are left out.
\<close>

datatype UploadedFile = DomFile File | PlainObject string nat string

fun u_name :: "UploadedFile \<Rightarrow> string" where
  "u_name (DomFile f) = f_name f"
| "u_name (PlainObject n sz ty) = n"

fun u_size :: "UploadedFile \<Rightarrow> nat" where
  "u_size (DomFile f) = f_size f"
| "u_size (PlainObject n sz ty) = sz"

fun u_type :: "UploadedFile \<Rightarrow> string" where
  "u_type (DomFile f) = f_type f"
| "u_type (PlainObject n sz ty) = ty"

definition onDrop :: "File list \<Rightarrow> UploadedFile list \<Rightarrow> UploadedFile list" where
  "onDrop acceptedFiles files =
     files @ map (\<lambda>file. PlainObject (f_name file) (f_size file) (f_type file)) acceptedFiles"

text \<open>
  Line 5 of the module imports the name \<^verbatim>\<open>File\<close> from \<^verbatim>\<open>lucide-react\<close>, so in the whole module
  the identifier \<^verbatim>\<open>File\<close> is the icon component and not the constructor of the DOM. The icons
  of \<^verbatim>\<open>lucide-react\<close> are made with \<^verbatim>\<open>forwardRef\<close> of React, whose result is an object that
  cannot be called. \<^verbatim>\<open>Blob\<close> is not imported and is the constructor of the DOM. The
  expression \<^verbatim>\<open>x instanceof c\<close> throws a \<^verbatim>\<open>TypeError\<close> when \<^verbatim>\<open>c\<close> cannot be called, whatever
  \<^verbatim>\<open>x\<close> is; for the constructor \<^verbatim>\<open>Blob\<close> it says whether \<^verbatim>\<open>x\<close> is a \<^verbatim>\<open>Blob\<close>.
\<close>

datatype jsvalue = BlobConstructor | ForwardRefObject

definition lucide_File :: jsvalue where
  "lucide_File = ForwardRefObject"

definition instanceOf :: "UploadedFile \<Rightarrow> jsvalue \<Rightarrow> hashFailure + bool" where
  "instanceOf x c =
     (case c of
        ForwardRefObject \<Rightarrow> Inl InstanceofNotCallable
      | BlobConstructor \<Rightarrow> Inr (case x of DomFile f \<Rightarrow> True | PlainObject n sz ty \<Rightarrow> False))"

text \<open>
  Reading the whole file: \<^verbatim>\<open>file.arrayBuffer()\<close> where the object has the method. An object
  without it goes to the \<^verbatim>\<open>FileReader\<close>, whose \<^verbatim>\<open>readAsArrayBuffer\<close> throws for an argument
  that is not a \<^verbatim>\<open>Blob\<close>; the promise is rejected.
\<close>

definition readWholeFile :: "UploadedFile \<Rightarrow> hashFailure + byte list" where
  "readWholeFile file =
     (case file of
        DomFile f \<Rightarrow> Inr (f_content f)
      | PlainObject n sz ty \<Rightarrow> Inl FileReaderFailed)"

text \<open>
  \<^verbatim>\<open>file.slice(start, end)\<close>: the plain object has no \<^verbatim>\<open>slice\<close>, and calling it throws.
\<close>

definition file_slice :: "UploadedFile \<Rightarrow> nat \<Rightarrow> nat \<Rightarrow> sendError + byte list" where
  "file_slice file start end =
     (case file of
        DomFile f \<Rightarrow> Inr (blob_slice start end (f_content f))
      | PlainObject n sz ty \<Rightarrow> Inl SliceNotAFunction)"

text \<open>
  \<^verbatim>\<open>sendFileInChunks\<close> cuts every file with the constant \<^verbatim>\<open>CHUNK_SIZE = 256 * 1024\<close>.

  The hash generation, lines 377 to 424. \<^verbatim>\<open>file\<close> is an object, so the first check passes.
  The second check is \<^verbatim>\<open>!(file instanceof File) && !(file instanceof Blob)\<close>: the left operand
  is evaluated first, and the right one only when \<^verbatim>\<open>file instanceof File\<close> is false. Then the
  whole file is read and the fingerprint is the hexadecimal SHA-256 digest of the buffer.
  Whatever is thrown on the way is caught and thrown again as
  \<^verbatim>\<open>File hash generation failed: ...\<close>.
\<close>

definition CHUNK_SIZE :: nat where
  "CHUNK_SIZE = 256 * 1024"

definition generateFileHash :: "UploadedFile \<Rightarrow> sendError + string" where
  "generateFileHash file =
     (case instanceOf file lucide_File of
        Inl e \<Rightarrow> Inl (HashGenerationFailed e)
      | Inr isFile \<Rightarrow>
          (case (if isFile then Inr True else instanceOf file BlobConstructor) of
             Inl e \<Rightarrow> Inl (HashGenerationFailed e)
           | Inr fileOrBlob \<Rightarrow>
               if \<not> fileOrBlob then Inl (HashGenerationFailed NotFileOrBlob)
               else
                 (case readWholeFile file of
                    Inl e \<Rightarrow> Inl (HashGenerationFailed e)
                  | Inr fileBuffer \<Rightarrow> Inr (toHex (sha256 fileBuffer)))))"

text \<open>
  The sender's run is recorded as the sequence of messages it sends on the connection and of
  messages its temporary listener \<^verbatim>\<open>handleChunkAck\<close> receives, in the order they happen.
  Its local variables are \<^verbatim>\<open>pendingChunks\<close>, \<^verbatim>\<open>acknowledgedChunks\<close> and \<^verbatim>\<open>sentBytes\<close>.
\<close>

datatype event = Sent msg | Received msg

record sender_state =
  pendingChunks :: "nat set"
  acknowledgedChunks :: nat
  sentBytes :: nat
  trace :: "event list"

text \<open>
  What the peer and the transport do is the environment of the run. For the iteration of chunk
  \<open>i\<close>: what \<^verbatim>\<open>conn.open\<close> reads at the head of the iteration; the messages delivered while
  the chunk is read, before it is sent; the messages delivered between two successive runs of
  the 50 ms poll \<^verbatim>\<open>checkAck\<close>; the messages delivered during the 10 ms pause after the
  acknowledgement. After the loop: the messages delivered during the 10 s wait for the final
  confirmation.
\<close>

record round_env =
  connOpen :: bool
  before_send :: "msg list"
  ticks :: "msg list list"
  after_ack :: "msg list"

record sender_env =
  rounds :: "nat \<Rightarrow> round_env"
  final_window :: "msg list"

text \<open>
  The acknowledgement timer fires 5000 ms after the chunk was sent and \<^verbatim>\<open>checkAck\<close> runs every
  50 ms from the moment the chunk was sent: 100 poll intervals pass before the timer fires.
\<close>

definition ACK_TIMEOUT_MS :: nat where "ACK_TIMEOUT_MS = 5000"
definition ACK_POLL_MS :: nat where "ACK_POLL_MS = 50"
definition ackPolls :: nat where "ackPolls = ACK_TIMEOUT_MS div ACK_POLL_MS"

definition send :: "msg \<Rightarrow> sender_state \<Rightarrow> sender_state" where
  "send m st = st\<lparr>trace := trace st @ [Sent m]\<rparr>"

definition handleChunkAck :: "string \<Rightarrow> msg \<Rightarrow> sender_state \<Rightarrow> sender_state" where
  "handleChunkAck fileName data st =
     (case data of
        ChunkAck fn chunkIndex \<Rightarrow>
          if fn = fileName
          then st\<lparr>acknowledgedChunks := Suc (acknowledgedChunks st),
                  pendingChunks := pendingChunks st - {chunkIndex}\<rparr>
          else st
      | _ \<Rightarrow> st)"

definition receive :: "string \<Rightarrow> sender_state \<Rightarrow> msg \<Rightarrow> sender_state" where
  "receive fileName st data = handleChunkAck fileName data (st\<lparr>trace := trace st @ [Received data]\<rparr>)"

definition deliver :: "string \<Rightarrow> msg list \<Rightarrow> sender_state \<Rightarrow> sender_state" where
  "deliver fileName ms st = foldl (receive fileName) st ms"

text \<open>
  The wait for the acknowledgement of chunk \<open>i\<close>: \<^verbatim>\<open>checkAck\<close> resolves as soon as \<open>i\<close> is
  no longer pending; when the timer fires and \<open>i\<close> is still pending the promise is rejected.
  The result is \<open>True\<close> for resolved and \<open>False\<close> for rejected.
\<close>

fun waitForAck :: "string \<Rightarrow> nat \<Rightarrow> nat \<Rightarrow> msg list list \<Rightarrow> sender_state \<Rightarrow> bool \<times> sender_state" where
  "waitForAck fileName i 0 ts st = (i \<notin> pendingChunks st, st)"
| "waitForAck fileName i (Suc polls) ts st =
     (if i \<notin> pendingChunks st then (True, st)
      else waitForAck fileName i polls (tl ts)
             (deliver fileName (case ts of [] \<Rightarrow> [] | t # _ \<Rightarrow> t) st))"

function sendLoop ::
  "UploadedFile \<Rightarrow> nat \<Rightarrow> (nat \<Rightarrow> round_env) \<Rightarrow> nat \<Rightarrow> sender_state \<Rightarrow> (sendError + unit) \<times> sender_state" where
  "sendLoop file totalChunks env i st =
     (if i < totalChunks then
        if \<not> connOpen (env i) then (Inl ConnectionLost, st)
        else
          let start = i * CHUNK_SIZE;
              end = min (start + CHUNK_SIZE) (u_size file)
          in case file_slice file start end of
               Inl e \<Rightarrow> (Inl e, st)
             | Inr chunk \<Rightarrow>
                 let st1 = deliver (u_name file) (before_send (env i)) st;
                     st2 = st1\<lparr>pendingChunks := insert i (pendingChunks st1)\<rparr>;
                     st3 = send (FileChunk (u_name file) i totalChunks (Binary chunk)
                                   (i = totalChunks - 1)) st2;
                     st4 = st3\<lparr>sentBytes := sentBytes st3 + length chunk\<rparr>;
                     (acked, st5) = waitForAck (u_name file) i ackPolls (ticks (env i)) st4
                 in if \<not> acked then (Inl (ChunkTimeout i), st5)
                    else sendLoop file totalChunks env (Suc i)
                           (deliver (u_name file) (after_ack (env i)) st5)
      else (Inr (), st))"
  by pat_completeness auto
termination
  by (relation "measure (\<lambda>(file, totalChunks, env, i, st). totalChunks - i)") auto

declare sendLoop.simps [simp del]

text \<open>
  The wait for \<^verbatim>\<open>file-complete\<close> with \<^verbatim>\<open>verified === true\<close>: the listener \<^verbatim>\<open>checkComplete\<close>
  resolves at the first such message for this file; the 10 s timer rejects otherwise.
\<close>

fun awaitFinal :: "string \<Rightarrow> msg list \<Rightarrow> sender_state \<Rightarrow> bool \<times> sender_state" where
  "awaitFinal fileName [] st = (False, st)"
| "awaitFinal fileName (m # ms) st =
     (let st' = receive fileName st m
      in case m of
           FileComplete fn verified sz h \<Rightarrow>
             if fn = fileName \<and> verified then (True, st') else awaitFinal fileName ms st'
         | _ \<Rightarrow> awaitFinal fileName ms st')"

text \<open>
  \<^verbatim>\<open>sendFileInChunks(conn, file)\<close>: the hash generation, \<^verbatim>\<open>file-start\<close>, the loop, the final
  wait. The listener \<^verbatim>\<open>handleChunkAck\<close> is attached after \<^verbatim>\<open>file-start\<close> was sent. An error
  thrown inside the outer \<^verbatim>\<open>try\<close>, the one of the hash generation included, is reported to
  the peer as \<^verbatim>\<open>transfer-error\<close> and thrown again: the result \<open>Inl\<close>.
\<close>

definition sendFileInChunks :: "UploadedFile \<Rightarrow> sender_env \<Rightarrow> (sendError + unit) \<times> sender_state" where
  "sendFileInChunks file env =
     (let totalChunks = ceilDiv (u_size file) CHUNK_SIZE;
          st = \<lparr>pendingChunks = {}, acknowledgedChunks = 0, sentBytes = 0, trace = []\<rparr>
      in case generateFileHash file of
           Inl e \<Rightarrow> (Inl e, send (TransferError (u_name file) e) st)
         | Inr fileHash \<Rightarrow>
             let st0 = send (FileStart (u_name file) (u_size file) (u_type file) totalChunks fileHash) st
             in case sendLoop file totalChunks (rounds env) 0 st0 of
                  (Inl e, st1) \<Rightarrow> (Inl e, send (TransferError (u_name file) e) st1)
                | (Inr u, st1) \<Rightarrow>
                    (case awaitFinal (u_name file) (final_window env) st1 of
                       (True, st') \<Rightarrow> (Inr (), st')
                     | (False, st') \<Rightarrow>
                         (Inl FinalConfirmationTimeout,
                          send (TransferError (u_name file) FinalConfirmationTimeout) st')))"



text \<open>Vocabulary for statements about a run of the sender.\<close>

definition isChunkSend :: "string \<Rightarrow> nat \<Rightarrow> event \<Rightarrow> bool" where
  "isChunkSend fileName i e =
     (case e of
        Sent (FileChunk fn chunkIndex totalChunks d isLast) \<Rightarrow> fn = fileName \<and> chunkIndex = i
      | _ \<Rightarrow> False)"

fun sentChunks :: "event list \<Rightarrow> msg list" where
  "sentChunks [] = []"
| "sentChunks (Sent (FileChunk fn chunkIndex totalChunks d isLast) # es) =
     FileChunk fn chunkIndex totalChunks d isLast # sentChunks es"
| "sentChunks (e # es) = sentChunks es"

definition ackedInWindow :: "round_env \<Rightarrow> string \<Rightarrow> nat \<Rightarrow> bool" where
  "ackedInWindow r fileName i = (ChunkAck fileName i \<in> set (concat (take ackPolls (ticks r))))"

definition ackGated :: "string \<Rightarrow> event list \<Rightarrow> bool" where
  "ackGated fileName tr =
     (\<forall>p < length tr. \<forall>i. isChunkSend fileName (Suc i) (tr ! p) \<longrightarrow>
        (\<exists>r q. r < q \<and> q < p \<and> isChunkSend fileName i (tr ! r) \<and>
                tr ! q = Received (ChunkAck fileName i)))"

definition ackedAfter :: "string \<Rightarrow> nat \<Rightarrow> event list \<Rightarrow> bool" where
  "ackedAfter fileName i tr =
     (\<exists>r q. r < q \<and> q < length tr \<and> isChunkSend fileName i (tr ! r) \<and>
            tr ! q = Received (ChunkAck fileName i))"

text \<open>The \<^verbatim>\<open>file-chunk\<close> message of chunk \<open>i\<close> of a file cut into \<open>totalChunks\<close> chunks.\<close>

definition chunkMessage :: "File \<Rightarrow> nat \<Rightarrow> nat \<Rightarrow> msg" where
  "chunkMessage f totalChunks i =
     FileChunk (f_name f) i totalChunks
       (Binary (blob_slice (i * CHUNK_SIZE) (min ((i + 1) * CHUNK_SIZE) (f_size f)) (f_content f)))
       (i + 1 = totalChunks)"



definition tenMiBFile :: File where
  "tenMiBFile =
     \<lparr>f_name = ''ten.bin'', f_content = replicate (10 * MiB) 0,
      f_type = ''application/octet-stream''\<rparr>"


definition ackingRound :: "string \<Rightarrow> nat \<Rightarrow> round_env" where
  "ackingRound fileName i =
     \<lparr>connOpen = True, before_send = [], ticks = [[ChunkAck fileName i]], after_ack = []\<rparr>"


definition allAcked :: "string \<Rightarrow> sender_env" where
  "allAcked fileName = \<lparr>rounds = ackingRound fileName, final_window = []\<rparr>"

section \<open>The receiver (FileDownloader, in ResponsiveLayout.tsx)\<close>

text \<open>
  \<^verbatim>\<open>downloadFile(fileName)\<close> creates the local variables of one download (the reassembly map
  \<^verbatim>\<open>fileChunks\<close>, \<^verbatim>\<open>totalChunks\<close>, \<^verbatim>\<open>expectedFileSize\<close>, \<^verbatim>\<open>expectedFileHash\<close>,
  \<^verbatim>\<open>receivedChunks\<close>) and stores a closure over them in the single global slot
  \<^verbatim>\<open>window.currentDownloadHandler\<close>. The closure is the only code that reads or writes these
  variables, so the slot is modelled as holding them. The component state is
  \<^verbatim>\<open>isDownloading\<close>, \<^verbatim>\<open>downloadErrors\<close>, \<^verbatim>\<open>downloadedFiles\<close>, \<^verbatim>\<open>verifiedFiles\<close>;
  \<open>connection\<close> says whether a connection is there, and \<open>outbox\<close> lists what was sent on it.
  The progress display and the MIME type of the blob are left out.
\<close>

record download =
  dl_fileName :: string
  dl_fileChunks :: "nat \<rightharpoonup> byte list"
  dl_totalChunks :: nat
  dl_expectedFileSize :: nat
  dl_expectedFileHash :: string
  dl_receivedChunks :: nat

record downloader =
  connection :: bool
  currentDownloadHandler :: "download option"
  isDownloading :: bool
  downloadErrors :: "string \<rightharpoonup> recvError"
  downloadedFiles :: "string \<rightharpoonup> byte list"
  verifiedFiles :: "string \<rightharpoonup> bool"
  outbox :: "msg list"

text \<open>
  A failed check records the error for the file, reports it to the sender as \<^verbatim>\<open>file-error\<close>
  and clears \<^verbatim>\<open>isDownloading\<close>; the blob-size check only records it.
\<close>

definition reportFailure :: "string \<Rightarrow> recvError \<Rightarrow> downloader \<Rightarrow> downloader" where
  "reportFailure fileName e st =
     st\<lparr>downloadErrors := (downloadErrors st)(fileName \<mapsto> e),
        outbox := outbox st @ [FileError fileName e],
        isDownloading := False\<rparr>"

definition recordFailure :: "string \<Rightarrow> recvError \<Rightarrow> downloader \<Rightarrow> downloader" where
  "recordFailure fileName e st =
     st\<lparr>downloadErrors := (downloadErrors st)(fileName \<mapsto> e), isDownloading := False\<rparr>"

text \<open>
  The first loop of \<^verbatim>\<open>completeFileDownload\<close>: an index without an entry is missing, an entry of
  length 0 is corrupted, every other entry adds its length to \<^verbatim>\<open>totalSize\<close>.
\<close>

definition scanChunks :: "(nat \<rightharpoonup> byte list) \<Rightarrow> nat \<Rightarrow> nat list \<times> nat list \<times> nat" where
  "scanChunks fileChunks totalChunks =
     foldl (\<lambda>(missingChunks, corruptedChunks, totalSize) i.
              case fileChunks i of
                None \<Rightarrow> (missingChunks @ [i], corruptedChunks, totalSize)
              | Some chunk \<Rightarrow>
                  if length chunk = 0 then (missingChunks, corruptedChunks @ [i], totalSize)
                  else (missingChunks, corruptedChunks, totalSize + length chunk))
       ([], [], 0) [0..<totalChunks]"

text \<open>
  The second loop collects the chunks in index order; a missing entry throws, which the outer
  \<^verbatim>\<open>catch\<close> turns into a reported failure.
\<close>

fun collectChunks :: "(nat \<rightharpoonup> byte list) \<Rightarrow> nat list \<Rightarrow> recvError + byte list list" where
  "collectChunks fileChunks [] = Inr []"
| "collectChunks fileChunks (i # rest) =
     (case fileChunks i of
        None \<Rightarrow> Inl (CompletionFailure i)
      | Some chunk \<Rightarrow>
          (case collectChunks fileChunks rest of
             Inl e \<Rightarrow> Inl e
           | Inr chunks \<Rightarrow> Inr (chunk # chunks)))"

definition completeFileDownload ::
  "string \<Rightarrow> (nat \<rightharpoonup> byte list) \<Rightarrow> nat \<Rightarrow> nat \<Rightarrow> string \<Rightarrow> downloader \<Rightarrow> downloader" where
  "completeFileDownload fileName fileChunks totalChunks expectedFileSize expectedFileHash st =
     (case scanChunks fileChunks totalChunks of
        (missingChunks, corruptedChunks, totalSize) \<Rightarrow>
          if missingChunks \<noteq> [] then reportFailure fileName (MissingChunks missingChunks) st
          else if corruptedChunks \<noteq> [] then reportFailure fileName (CorruptedChunks corruptedChunks) st
          else
            (case collectChunks fileChunks [0..<totalChunks] of
               Inl e \<Rightarrow> reportFailure fileName e st
             | Inr orderedChunks \<Rightarrow>
                 if totalSize \<noteq> expectedFileSize
                 then reportFailure fileName (SizeMismatch expectedFileSize totalSize) st
                 else
                   let blob = concat orderedChunks
                   in if length blob \<noteq> expectedFileSize
                      then recordFailure fileName (BlobSizeMismatch expectedFileSize (length blob)) st
                      else
                        let receivedHash = toHex (sha256 blob)
                        in if receivedHash \<noteq> expectedFileHash
                           then reportFailure fileName IntegrityMismatch st
                           else st\<lparr>outbox := outbox st @
                                       [FileComplete fileName True (length blob) receivedHash],
                                   downloadedFiles := (downloadedFiles st)(fileName \<mapsto> blob),
                                   verifiedFiles := (verifiedFiles st)(fileName \<mapsto> True),
                                   isDownloading := False,
                                   downloadErrors := (downloadErrors st)(fileName := None)\<rparr>))"

text \<open>
  The closure stored by \<^verbatim>\<open>downloadFile\<close>: it looks only at messages whose \<^verbatim>\<open>fileName\<close> is the
  one of its download. For a \<^verbatim>\<open>file-chunk\<close> whose \<^verbatim>\<open>data\<close> is \<^verbatim>\<open>null\<close> the third test of
  the conversion reads \<^verbatim>\<open>data.data.type\<close> and throws a \<^verbatim>\<open>TypeError\<close> that nothing catches:
  the closure ends there and has changed nothing.
\<close>

definition downloadHandler :: "download \<Rightarrow> msg \<Rightarrow> downloader \<Rightarrow> download \<times> downloader" where
  "downloadHandler d data st =
     (case data of
        FileStart fn fSize fType nChunks fHash \<Rightarrow>
          if fn = dl_fileName d
          then (d\<lparr>dl_totalChunks := nChunks, dl_expectedFileSize := fSize,
                  dl_expectedFileHash := fHash\<rparr>, st)
          else (d, st)
      | FileChunk fn chunkIndex nChunks content isLast \<Rightarrow>
          if fn = dl_fileName d then
            (case content of
               Null \<Rightarrow> (d, st)
             | Unsupported \<Rightarrow>
                 (d, st\<lparr>downloadErrors := (downloadErrors st)(fn \<mapsto> InvalidChunkData)\<rparr>)
             | Binary chunkData \<Rightarrow>
                 if length chunkData = 0
                 then (d, st\<lparr>downloadErrors := (downloadErrors st)(fn \<mapsto> EmptyChunk chunkIndex)\<rparr>)
                 else
                   let d' = d\<lparr>dl_fileChunks := (dl_fileChunks d)(chunkIndex \<mapsto> chunkData),
                              dl_receivedChunks := Suc (dl_receivedChunks d)\<rparr>;
                       st' = st\<lparr>outbox := outbox st @ [ChunkAck fn chunkIndex]\<rparr>
                   in if isLast \<or> dl_receivedChunks d' = dl_totalChunks d'
                      then (d', completeFileDownload fn (dl_fileChunks d') (dl_totalChunks d')
                                  (dl_expectedFileSize d') (dl_expectedFileHash d') st')
                      else (d', st'))
          else (d, st)
      | _ \<Rightarrow> (d, st))"

definition newDownload :: "string \<Rightarrow> download" where
  "newDownload fileName =
     \<lparr>dl_fileName = fileName, dl_fileChunks = Map.empty, dl_totalChunks = 0,
      dl_expectedFileSize = 0, dl_expectedFileHash = [], dl_receivedChunks = 0\<rparr>"

definition downloadFile :: "string \<Rightarrow> downloader \<Rightarrow> downloader" where
  "downloadFile fileName st =
     (if \<not> connection st then st
      else st\<lparr>isDownloading := True,
              currentDownloadHandler := Some (newDownload fileName),
              outbox := outbox st @ [RequestFile fileName]\<rparr>)"

text \<open>
  \<^verbatim>\<open>handleFileChunk\<close>, called by the connection's data handler for every \<^verbatim>\<open>file-start\<close> and
  \<^verbatim>\<open>file-chunk\<close>: it passes the message to the handler in the slot, if there is one.
\<close>

definition handleFileChunk :: "msg \<Rightarrow> downloader \<Rightarrow> downloader" where
  "handleFileChunk data st =
     (case currentDownloadHandler st of
        None \<Rightarrow> st
      | Some d \<Rightarrow>
          (case downloadHandler d data st of
             (d', st') \<Rightarrow> st'\<lparr>currentDownloadHandler := Some d'\<rparr>))"

definition onData :: "msg \<Rightarrow> downloader \<Rightarrow> downloader" where
  "onData data st =
     (case data of
        FileStart fn fSize fType nChunks fHash \<Rightarrow> handleFileChunk data st
      | FileChunk fn chunkIndex nChunks content isLast \<Rightarrow> handleFileChunk data st
      | TransferError fn e \<Rightarrow>
          st\<lparr>downloadErrors := (downloadErrors st)(fn \<mapsto> SenderReported e),
             isDownloading := False\<rparr>
      | _ \<Rightarrow> st)"

text \<open>
  The reassembly state of a download after its handler has seen a sequence of messages, and
  the bytes of the chunks \<open>0 .. totalChunks - 1\<close> in index order.
\<close>

definition feed :: "download \<times> downloader \<Rightarrow> msg list \<Rightarrow> download \<times> downloader" where
  "feed start ms = foldl (\<lambda>(d, st) m. downloadHandler d m st) start ms"

definition reassembled :: "(nat \<rightharpoonup> byte list) \<Rightarrow> nat \<Rightarrow> byte list" where
  "reassembled fileChunks totalChunks = concat (map (\<lambda>i. the (fileChunks i)) [0..<totalChunks])"

definition idleDownloader :: downloader where
  "idleDownloader =
     \<lparr>connection = True, currentDownloadHandler = None, isDownloading = False,
      downloadErrors = Map.empty, downloadedFiles = Map.empty, verifiedFiles = Map.empty,
      outbox = []\<rparr>"

definition nonemptyChunks :: "download \<Rightarrow> bool" where
  "nonemptyChunks d = (\<forall>i chunk. dl_fileChunks d i = Some chunk \<longrightarrow> chunk \<noteq> [])"

section \<open>The chunk store (largeFileStorage.ts)\<close>

text \<open>
  The IndexedDB database holds the object store \<^verbatim>\<open>chunks\<close>, keyed by \<open>(fileId, chunkIndex)\<close>,
  and the object store \<^verbatim>\<open>sessions\<close>, keyed by the \<^verbatim>\<open>fileId\<close> field of the session record.
  \<open>db\<close> says whether \<^verbatim>\<open>initialize\<close> has opened the database; every operation throws
  \<^verbatim>\<open>Database not initialized\<close> otherwise. The timestamp of a session is left out.
\<close>

record session =
  s_fileId :: string
  s_fileName :: string
  s_fileSize :: nat
  s_fileType :: string
  s_totalChunks :: nat
  s_completedChunks :: "nat list"
  s_fileHash :: string
  s_isComplete :: bool

record storage =
  db :: bool
  chunkStore :: "string \<times> nat \<rightharpoonup> byte list"
  sessionStore :: "session list"

datatype mgrError =
    DatabaseNotInitialized
  | SessionNotFoundForResume
  | TransferStateNotInitialized
  | TransferAborted
  | SessionNotFound
  | ChunkDataNotAvailable
  | ChunkSendTimeout nat
  | ChunkFailed nat

definition getSession :: "storage \<Rightarrow> string \<Rightarrow> mgrError + session option" where
  "getSession s fileId =
     (if \<not> db s then Inl DatabaseNotInitialized
      else Inr (find (\<lambda>x. s_fileId x = fileId) (sessionStore s)))"

definition saveSession :: "session \<Rightarrow> storage \<Rightarrow> mgrError + storage" where
  "saveSession x s =
     (if \<not> db s then Inl DatabaseNotInitialized
      else Inr (s\<lparr>sessionStore := x # filter (\<lambda>y. s_fileId y \<noteq> s_fileId x) (sessionStore s)\<rparr>))"

definition getChunk :: "storage \<Rightarrow> string \<Rightarrow> nat \<Rightarrow> mgrError + byte list option" where
  "getChunk s fileId chunkIndex =
     (if \<not> db s then Inl DatabaseNotInitialized else Inr (chunkStore s (fileId, chunkIndex)))"

section \<open>The session manager (transferSessionManager.ts)\<close>

text \<open>
  The manager keeps a \<^verbatim>\<open>TransferState\<close> per file in \<^verbatim>\<open>activeSessions\<close> and an abort controller
  per running transfer in \<^verbatim>\<open>transferControllers\<close>. Of the transfer state the model keeps the
  status, the chunk counters, \<^verbatim>\<open>canResume\<close> and the error; the percentage, the speed, the
  estimate and the time of last activity are left out. \<open>m_sent\<close> lists the
  \<^verbatim>\<open>large-file-chunk\<close> messages sent on the connection, \<open>m_callbacks\<close> the calls of
  \<^verbatim>\<open>onProgress\<close>, \<^verbatim>\<open>onComplete\<close> and \<^verbatim>\<open>onError\<close>.
\<close>

datatype status = Idle | Processing | Connecting | Transferring | Paused | Complete | Errored

record transferState =
  ts_status :: status
  ts_transferredChunks :: nat
  ts_totalChunks :: nat
  ts_canResume :: bool
  ts_error :: "mgrError option"

datatype largeMsg = LargeFileChunk string string nat nat "byte list" string

text \<open>\<open>LargeFileChunk fileId fileName chunkIndex totalChunks data fileHash\<close>.\<close>

datatype callback = OnProgress nat | OnComplete | OnError mgrError

record manager =
  activeSessions :: "string \<rightharpoonup> transferState"
  transferControllers :: "string set"
  m_store :: storage
  m_sent :: "largeMsg list"
  m_callbacks :: "callback list"

text \<open>
  The environment of a resumed transfer, per chunk index: what \<^verbatim>\<open>controller.signal.aborted\<close>
  reads at the head of the iteration for the chunk, and what the peer answers to the chunk: a
  \<^verbatim>\<open>large-file-chunk-ack\<close> with \<^verbatim>\<open>success\<close>, one without, or nothing within the 30 s of the
  timer.
\<close>

datatype ack = AckSuccess | AckFailure | NoAck

record chunk_env =
  ce_aborted :: bool
  ce_ack :: ack

definition transferChunk :: "string \<Rightarrow> nat \<Rightarrow> ack \<Rightarrow> manager \<Rightarrow> (mgrError + unit) \<times> manager" where
  "transferChunk fileId chunkIndex answer m =
     (case getSession (m_store m) fileId of
        Inl e \<Rightarrow> (Inl e, m)
      | Inr None \<Rightarrow> (Inl SessionNotFound, m)
      | Inr (Some session) \<Rightarrow>
          (case getChunk (m_store m) fileId chunkIndex of
             Inl e \<Rightarrow> (Inl e, m)
           | Inr None \<Rightarrow> (Inl ChunkDataNotAvailable, m)
           | Inr (Some chunkData) \<Rightarrow>
               let m' = m\<lparr>m_sent := m_sent m @
                            [LargeFileChunk (s_fileId session) (s_fileName session) chunkIndex
                               (s_totalChunks session) chunkData (s_fileHash session)]\<rparr>
               in case answer of
                    AckSuccess \<Rightarrow> (Inr (), m')
                  | AckFailure \<Rightarrow> (Inl (ChunkFailed chunkIndex), m')
                  | NoAck \<Rightarrow> (Inl (ChunkSendTimeout chunkIndex), m')))"

definition updateState :: "string \<Rightarrow> (transferState \<Rightarrow> transferState) \<Rightarrow> manager \<Rightarrow> manager" where
  "updateState fileId change m =
     m\<lparr>activeSessions := (case activeSessions m fileId of
                              None \<Rightarrow> activeSessions m
                            | Some ts \<Rightarrow> (activeSessions m)(fileId \<mapsto> change ts))\<rparr>"

text \<open>
  The loop over \<^verbatim>\<open>remainingChunks\<close>. \<open>session\<close> is the local session object, changed and
  saved after every acknowledged chunk.
\<close>

fun resumeLoop ::
  "string \<Rightarrow> (nat \<Rightarrow> chunk_env) \<Rightarrow> nat list \<Rightarrow> session \<Rightarrow> manager \<Rightarrow> (mgrError + session) \<times> manager" where
  "resumeLoop fileId env [] session m = (Inr session, m)"
| "resumeLoop fileId env (chunkIndex # rest) session m =
     (if ce_aborted (env chunkIndex) then (Inl TransferAborted, m)
      else
        case transferChunk fileId chunkIndex (ce_ack (env chunkIndex)) m of
          (Inl e, m') \<Rightarrow> (Inl e, m')
        | (Inr u, m') \<Rightarrow>
            let m1 = updateState fileId
                       (\<lambda>ts. ts\<lparr>ts_transferredChunks := Suc (ts_transferredChunks ts)\<rparr>) m';
                session' = session\<lparr>s_completedChunks := s_completedChunks session @ [chunkIndex]\<rparr>
            in case saveSession session' (m_store m1) of
                 Inl e \<Rightarrow> (Inl e, m1)
               | Inr store' \<Rightarrow>
                   resumeLoop fileId env rest session'
                     (m1\<lparr>m_store := store',
                         m_callbacks := m_callbacks m1 @
                           [OnProgress (case activeSessions m1 fileId of
                                          None \<Rightarrow> 0 | Some ts \<Rightarrow> ts_transferredChunks ts)]\<rparr>))"

text \<open>
  \<^verbatim>\<open>resumeTransfer\<close>. The two checks before the \<^verbatim>\<open>try\<close> throw (the result \<open>Inl\<close>); an error
  inside the \<^verbatim>\<open>try\<close> is caught, recorded in the transfer state and passed to \<^verbatim>\<open>onError\<close>.
\<close>

definition failTransfer :: "string \<Rightarrow> mgrError \<Rightarrow> manager \<Rightarrow> manager" where
  "failTransfer fileId e m =
     (let m1 = updateState fileId (\<lambda>ts. ts\<lparr>ts_status := Errored, ts_error := Some e\<rparr>) m
      in m1\<lparr>m_callbacks := m_callbacks m1 @ [OnError e],
            transferControllers := transferControllers m1 - {fileId}\<rparr>)"

definition resumeTransfer :: "string \<Rightarrow> (nat \<Rightarrow> chunk_env) \<Rightarrow> manager \<Rightarrow> (mgrError + unit) \<times> manager" where
  "resumeTransfer fileId env m =
     (case getSession (m_store m) fileId of
        Inl e \<Rightarrow> (Inl e, m)
      | Inr None \<Rightarrow> (Inl SessionNotFoundForResume, m)
      | Inr (Some session) \<Rightarrow>
          (case activeSessions m fileId of
             None \<Rightarrow> (Inl TransferStateNotInitialized, m)
           | Some ts0 \<Rightarrow>
               let m1 = m\<lparr>transferControllers := insert fileId (transferControllers m)\<rparr>;
                   m2 = updateState fileId (\<lambda>ts. ts\<lparr>ts_status := Transferring\<rparr>) m1;
                   completedChunkSet = set (s_completedChunks session);
                   remainingChunks = filter (\<lambda>i. i \<notin> completedChunkSet) [0..<s_totalChunks session]
               in case resumeLoop fileId env remainingChunks session m2 of
                    (Inl e, m3) \<Rightarrow> (Inr (), failTransfer fileId e m3)
                  | (Inr session', m3) \<Rightarrow>
                      let m4 = updateState fileId (\<lambda>ts. ts\<lparr>ts_status := Complete\<rparr>) m3
                      in case saveSession (session'\<lparr>s_isComplete := True\<rparr>) (m_store m4) of
                           Inl e \<Rightarrow> (Inr (), failTransfer fileId e m4)
                         | Inr store' \<Rightarrow>
                             (Inr (),
                              m4\<lparr>m_store := store',
                                 m_callbacks := m_callbacks m4 @ [OnComplete],
                                 transferControllers := transferControllers m4 - {fileId}\<rparr>)))"

text \<open>Vocabulary for statements about a resumed transfer.\<close>

definition sentIndices :: "largeMsg list \<Rightarrow> nat list" where
  "sentIndices ms =
     map (\<lambda>x. case x of LargeFileChunk fileId fileName chunkIndex n chunkData fileHash \<Rightarrow> chunkIndex) ms"

definition remainingOf :: "session \<Rightarrow> nat list" where
  "remainingOf session =
     filter (\<lambda>i. i \<notin> set (s_completedChunks session)) [0..<s_totalChunks session]"

definition chunkGoesThrough :: "manager \<Rightarrow> string \<Rightarrow> (nat \<Rightarrow> chunk_env) \<Rightarrow> nat \<Rightarrow> bool" where
  "chunkGoesThrough m fileId env i =
     (\<not> ce_aborted (env i) \<and> ce_ack (env i) = AckSuccess \<and>
      chunkStore (m_store m) (fileId, i) \<noteq> None)"

definition storedSession :: "manager \<Rightarrow> string \<Rightarrow> session option" where
  "storedSession m fileId = find (\<lambda>x. s_fileId x = fileId) (sessionStore (m_store m))"

definition statusOf :: "manager \<Rightarrow> string \<Rightarrow> status option" where
  "statusOf m fileId = map_option ts_status (activeSessions m fileId)"

text \<open>
  The remaining indices that a resumed transfer gets acknowledged are the longest prefix of
  the remaining ones whose chunks all go through. The first remaining chunk that does not go
  through is still sent when the transfer is not aborted at its iteration and the chunk is in
  the store: it is then the acknowledgement that fails or does not come.
\<close>

definition acknowledgedOf :: "manager \<Rightarrow> string \<Rightarrow> (nat \<Rightarrow> chunk_env) \<Rightarrow> session \<Rightarrow> nat list" where
  "acknowledgedOf m fileId env session =
     takeWhile (chunkGoesThrough m fileId env) (remainingOf session)"

definition unacknowledgedOf :: "manager \<Rightarrow> string \<Rightarrow> (nat \<Rightarrow> chunk_env) \<Rightarrow> session \<Rightarrow> nat list" where
  "unacknowledgedOf m fileId env session =
     (case dropWhile (chunkGoesThrough m fileId env) (remainingOf session) of
        [] \<Rightarrow> []
      | c # rest \<Rightarrow>
          if \<not> ce_aborted (env c) \<and> chunkStore (m_store m) (fileId, c) \<noteq> None then [c] else [])"

text \<open>
  Example inputs: a session of three chunks of which chunk 0 is completed, in a manager whose
  store holds the three chunks, a peer that acknowledges every chunk, and a peer whose
  acknowledgement of chunk 2 never comes.
\<close>

definition exampleSession :: session where
  "exampleSession =
     \<lparr>s_fileId = ''f1'', s_fileName = ''video.bin'', s_fileSize = 3, s_fileType = ''video/mp4'',
      s_totalChunks = 3, s_completedChunks = [0], s_fileHash = ''00'', s_isComplete = False\<rparr>"

definition exampleManager :: manager where
  "exampleManager =
     \<lparr>activeSessions =
        [''f1'' \<mapsto> \<lparr>ts_status = Idle, ts_transferredChunks = 1, ts_totalChunks = 3,
                     ts_canResume = True, ts_error = None\<rparr>],
      transferControllers = {},
      m_store = \<lparr>db = True,
                 chunkStore = [(''f1'', 0) \<mapsto> [1], (''f1'', 1) \<mapsto> [2], (''f1'', 2) \<mapsto> [3]],
                 sessionStore = [exampleSession]\<rparr>,
      m_sent = [],
      m_callbacks = []\<rparr>"

definition allSucceed :: "nat \<Rightarrow> chunk_env" where
  "allSucceed i = \<lparr>ce_aborted = False, ce_ack = AckSuccess\<rparr>"

definition lastAckLost :: "nat \<Rightarrow> chunk_env" where
  "lastAckLost i = \<lparr>ce_aborted = False, ce_ack = (if i = 2 then NoAck else AckSuccess)\<rparr>"
section \<open>Facts about the digest\<close>

lemma length_word_bytes: "length (word_bytes w) = 4"
  by (simp add: word_bytes_def)

lemma length_sha256: "length (sha256 m) = 32"
  by (simp add: sha256_def state_words_def length_word_bytes split: prod.splits)

section \<open>Facts about chunking\<close>

lemma ceilDiv_bounds:
  assumes "0 < b"
  shows "a \<le> ceilDiv a b * b" and "ceilDiv a b * b < a + b"
proof -
  let ?n = "a + b - 1"
  have split: "?n = ?n div b * b + ?n mod b" by simp
  have "?n mod b < b" using assms by simp
  with split assms show "a \<le> ceilDiv a b * b" unfolding ceilDiv_def by linarith
  from split assms show "ceilDiv a b * b < a + b" unfolding ceilDiv_def by linarith
qed

lemma ceilDiv_ceiling:
  assumes "0 < b"
  shows "int (ceilDiv a b) = \<lceil>real a / real b\<rceil>"
proof -
  have "real a \<le> real (ceilDiv a b * b)"
    using ceilDiv_bounds(1) [OF assms, of a] by (simp only: of_nat_le_iff)
  then have up: "real a / real b \<le> real (ceilDiv a b)"
    using assms by (simp add: pos_divide_le_eq)
  have "real (ceilDiv a b * b) < real (a + b)"
    using ceilDiv_bounds(2) [OF assms, of a] by (simp only: of_nat_less_iff)
  then have "real (ceilDiv a b) < (real a + real b) / real b"
    using assms by (simp add: pos_less_divide_eq)
  also have "\<dots> = real a / real b + 1"
    using assms by (simp add: add_divide_distrib)
  finally have lo: "real (ceilDiv a b) - 1 < real a / real b" by simp
  have "\<lceil>real a / real b\<rceil> = int (ceilDiv a b)"
    by (rule ceiling_unique) (use up lo in simp_all)
  then show ?thesis by simp
qed

lemma take_slice_step:
  "take (k * c) xs @ blob_slice (k * c) (min (k * c + c) (length xs)) xs = take (Suc k * c) xs"
  unfolding blob_slice_def
  by (metis add.commute add_diff_cancel_left' append_take_drop_id
    length_drop min.cobounded1 min_def take_add take_all_iff mult_Suc)

lemma concat_slices_take:
  "concat (map (\<lambda>i. blob_slice (i * c) (min (i * c + c) (length xs)) xs) [0..<k]) = take (k * c) xs"
proof (induction k)
  case 0
  show ?case by simp
next
  case (Suc k)
  show ?case
    using take_slice_step [of k c xs] by (simp add: Suc.IH)
qed

lemma concat_slices:
  assumes "length xs \<le> n * c"
  shows "concat (map (\<lambda>i. blob_slice (i * c) (min (i * c + c) (length xs)) xs) [0..<n]) = xs"
  using assms by (simp add: concat_slices_take)

text \<open>The chunk that iteration \<open>i\<close> of the loop reads.\<close>

lemma processLoop_run:
  "\<forall>i. \<not> po_aborted opts i \<Longrightarrow> i \<le> n \<Longrightarrow>
    processLoop f opts n i st =
      Inr (st\<lparr>combinedHashes := combinedHashes st @ map (\<lambda>k. sha256 (readFileChunk f k (po_chunkSize opts))) [i..<n],
              onChunkProcessed := onChunkProcessed st @ map (\<lambda>k. (k, readFileChunk f k (po_chunkSize opts))) [i..<n],
              processedChunks := processedChunks st + (n - i)\<rparr>)"
proof (induction f opts n i st rule: processLoop.induct)
  case (1 f opts n i st)
  show ?case
  proof (cases "i < n")
    case True
    then have upt: "[i..<n] = i # [Suc i..<n]" by (simp add: upt_rec)
    from True have le: "Suc i \<le> n" by simp
    from "1.prems" have na: "\<not> po_aborted opts i" by simp
    show ?thesis
      using True na "1.IH" [OF True na refl refl refl "1.prems"(1) le]
      by (subst processLoop.simps) (simp add: upt readFileChunk_def Let_def)
  next
    case False
    with "1.prems"(2) have "i = n" by simp
    then show ?thesis by (subst processLoop.simps) simp
  qed
qed

lemma combine_step:
  assumes "\<forall>h \<in> set hs. length h = 32" and "length buf = (k + length hs) * 32"
  shows "foldl (\<lambda>buf (index, hash). buffer_set buf hash (index * 32)) buf (zip [k..<k + length hs] hs)
         = take (k * 32) buf @ concat hs"
  using assms
proof (induction hs arbitrary: k buf)
  case Nil
  then show ?case by simp
next
  case (Cons h hs)
  let ?buf = "buffer_set buf h (k * 32)"
  have lh: "length h = 32" using Cons.prems(1) by simp
  have len: "length ?buf = (Suc k + length hs) * 32"
    using Cons.prems(2) lh by (simp add: buffer_set_def)
  have upt: "[k..<k + length (h # hs)] = k # [Suc k..<Suc k + length hs]"
    by (simp add: upt_rec)
  have tk: "take (Suc k * 32) ?buf = take (k * 32) buf @ h"
    using Cons.prems(2) lh by (simp add: buffer_set_def)
  have "foldl (\<lambda>buf (index, hash). buffer_set buf hash (index * 32)) buf
          (zip [k..<k + length (h # hs)] (h # hs))
        = foldl (\<lambda>buf (index, hash). buffer_set buf hash (index * 32)) ?buf
          (zip [Suc k..<Suc k + length hs] hs)"
    by (simp only: upt zip_Cons_Cons foldl_Cons prod.case)
  also have "\<dots> = take (Suc k * 32) ?buf @ concat hs"
    using Cons.prems(1) len by (intro Cons.IH) simp_all
  also have "\<dots> = take (k * 32) buf @ concat (h # hs)"
    by (simp only: tk append_assoc concat.simps)
  finally show ?case .
qed

lemma combineHashes_concat:
  assumes "\<forall>h \<in> set hs. length h = 32"
  shows "combineHashes hs = concat hs"
  using combine_step [OF assms, of "replicate (length hs * 32) 0" 0]
  by (simp add: combineHashes_def)

lemma processFileStream_returns:
  assumes "0 < po_chunkSize opts" and "\<forall>i. \<not> po_aborted opts i"
  shows "processFileStream f opts =
     Returned
       (\<lparr>r_fileHash = toHex (sha256 (concat (map (\<lambda>k. sha256 (readFileChunk f k (po_chunkSize opts)))
                      [0..<ceilDiv (f_size f) (po_chunkSize opts)]))),
         r_totalChunks = ceilDiv (f_size f) (po_chunkSize opts),
         r_fileSize = f_size f\<rparr>,
        map (\<lambda>k. (k, readFileChunk f k (po_chunkSize opts))) [0..<ceilDiv (f_size f) (po_chunkSize opts)])"
proof -
  have "combineHashes (map (\<lambda>k. sha256 (readFileChunk f k (po_chunkSize opts)))
                      [0..<ceilDiv (f_size f) (po_chunkSize opts)])
        = concat (map (\<lambda>k. sha256 (readFileChunk f k (po_chunkSize opts)))
                      [0..<ceilDiv (f_size f) (po_chunkSize opts)])"
    by (rule combineHashes_concat) (simp add: length_sha256)
  then show ?thesis
    using assms by (simp add: processFileStream_def Let_def processLoop_run)
qed


section \<open>Claims about the streaming chunker\<close>

text \<open>
  C5 (chunking round-trip). For every file and every chunk size \<open>c > 0\<close>, a run of
  \<^verbatim>\<open>processFileStream\<close> that is not aborted returns; the number of chunks is the ceiling of
  \<open>size / c\<close>; the chunks handed out carry the indices \<open>0 .. totalChunks - 1\<close> in order;
  chunk \<open>i\<close> is the slice \<open>[i * c, min ((i + 1) * c) size)\<close> of the file, which is also
  what \<^verbatim>\<open>readFileChunk\<close> reads; and the chunks concatenated in index order are the file.
\<close>

theorem chunking_roundtrip:
  assumes "0 < po_chunkSize opts" and "\<forall>i. \<not> po_aborted opts i"
  shows "\<exists>res chunks.
           processFileStream f opts = Returned (res, chunks) \<and>
           int (r_totalChunks res) = \<lceil>real (f_size f) / real (po_chunkSize opts)\<rceil> \<and>
           map fst chunks = [0..<r_totalChunks res] \<and>
           (\<forall>i < r_totalChunks res.
              snd (chunks ! i) =
                blob_slice (i * po_chunkSize opts) (min ((i + 1) * po_chunkSize opts) (f_size f))
                  (f_content f) \<and>
              snd (chunks ! i) = readFileChunk f i (po_chunkSize opts)) \<and>
           concat (map snd chunks) = f_content f"
proof -
  let ?c = "po_chunkSize opts"
  let ?n = "ceilDiv (f_size f) ?c"
  let ?chunks = "map (\<lambda>k. (k, readFileChunk f k ?c)) [0..<?n]"
  have cover: "length (f_content f) \<le> ?n * ?c"
    using ceilDiv_bounds(1) [OF assms(1), of "f_size f"] by (simp add: f_size_def)
  have "concat (map snd ?chunks) =
        concat (map (\<lambda>i. blob_slice (i * ?c) (min (i * ?c + ?c) (length (f_content f))) (f_content f))
                  [0..<?n])"
    by (simp add: comp_def readFileChunk_def f_size_def Let_def)
  also have "\<dots> = f_content f"
    by (rule concat_slices [OF cover])
  finally have whole: "concat (map snd ?chunks) = f_content f" .
  have idx: "map fst ?chunks = [0..<?n]"
    by (simp add: comp_def)
  have each: "\<forall>i < ?n.
      snd (?chunks ! i) = blob_slice (i * ?c) (min ((i + 1) * ?c) (f_size f)) (f_content f) \<and>
      snd (?chunks ! i) = readFileChunk f i ?c"
    by (simp add: readFileChunk_def Let_def add.commute)
  show ?thesis
    using processFileStream_returns [OF assms, of f] ceilDiv_ceiling [OF assms(1), of "f_size f"]
      whole idx each
    by simp
qed

theorem chunking_roundtrip_witness:
  "\<exists>res chunks.
     processFileStream \<lparr>f_name = ''notes.txt'', f_content = [1, 2, 3, 4, 5, 6, 7, 8, 9, 10],
                        f_type = ''text/plain''\<rparr> (plainOptions 4) = Returned (res, chunks) \<and>
     r_totalChunks res = 3 \<and>
     map fst chunks = [0, 1, 2] \<and>
     concat (map snd chunks) = [1, 2, 3, 4, 5, 6, 7, 8, 9, 10]"
proof -
  let ?f = "\<lparr>f_name = ''notes.txt'', f_content = [1, 2, 3, 4, 5, 6, 7, 8, 9, 10 :: byte],
                        f_type = ''text/plain''\<rparr>"
  have pos: "0 < po_chunkSize (plainOptions 4)" by (simp add: plainOptions_def)
  have run: "\<forall>i. \<not> po_aborted (plainOptions 4) i" by (simp add: plainOptions_def)
  from chunking_roundtrip [OF pos run, of ?f]
  obtain res chunks where
    r: "processFileStream ?f (plainOptions 4) = Returned (res, chunks)" and
    n: "int (r_totalChunks res) = \<lceil>real (f_size ?f) / real (po_chunkSize (plainOptions 4))\<rceil>" and
    i: "map fst chunks = [0..<r_totalChunks res]" and
    c: "concat (map snd chunks) = f_content ?f"
    by blast
  from n have "r_totalChunks res = 3"
    by (simp add: f_size_def plainOptions_def)
  with r i c show ?thesis
    by (simp add: upt_rec)
qed

text \<open>
  C6 (digest of digests). For every file and every chunk size \<open>c > 0\<close>, a run of
  \<^verbatim>\<open>processFileStream\<close> that is not aborted returns \<open>totalChunks = \<lceil>size / c\<rceil>\<close>, hands out the
  slices \<open>[i * c, min ((i + 1) * c) size)\<close> of the file for \<open>i = 0 .. totalChunks - 1\<close>, and its
  fingerprint is the hexadecimal SHA-256 digest of the concatenation, in index order, of the
  32-byte SHA-256 digests of these slices; that concatenation is \<open>totalChunks * 32\<close> bytes
  long.
\<close>

theorem fingerprint_is_digest_of_digests:
  assumes "0 < po_chunkSize opts" and "\<forall>i. \<not> po_aborted opts i"
  shows "\<exists>res chunks.
           processFileStream f opts = Returned (res, chunks) \<and>
           r_totalChunks res = ceilDiv (f_size f) (po_chunkSize opts) \<and>
           int (r_totalChunks res) = \<lceil>real (f_size f) / real (po_chunkSize opts)\<rceil> \<and>
           chunks =
             map (\<lambda>i. (i, blob_slice (i * po_chunkSize opts)
                             (min ((i + 1) * po_chunkSize opts) (f_size f)) (f_content f)))
               [0..<r_totalChunks res] \<and>
           r_fileHash res =
             toHex (sha256 (concat
               (map (\<lambda>i. sha256 (blob_slice (i * po_chunkSize opts)
                                    (min ((i + 1) * po_chunkSize opts) (f_size f)) (f_content f)))
                  [0..<r_totalChunks res]))) \<and>
           r_fileHash res = toHex (sha256 (concat (map (\<lambda>(i, payload). sha256 payload) chunks))) \<and>
           length (concat (map (\<lambda>(i, payload). sha256 payload) chunks)) = r_totalChunks res * 32"
proof -
  let ?c = "po_chunkSize opts"
  let ?n = "ceilDiv (f_size f) ?c"
  have slice: "\<And>i. readFileChunk f i ?c =
      blob_slice (i * ?c) (min ((i + 1) * ?c) (f_size f)) (f_content f)"
    by (simp add: readFileChunk_def Let_def add.commute)
  have len: "length (concat (map (\<lambda>k. sha256 (readFileChunk f k ?c)) [0..<?n])) = ?n * 32"
    by (simp add: length_concat comp_def length_sha256 sum_list_triv)
  show ?thesis
    using processFileStream_returns [OF assms, of f] ceilDiv_ceiling [OF assms(1), of "f_size f"]
      len
    by (simp add: comp_def slice)
qed

theorem fingerprint_is_digest_of_digests_witness:
  "\<exists>res chunks.
     processFileStream \<lparr>f_name = ''notes.txt'', f_content = [1, 2, 3, 4, 5, 6, 7, 8, 9, 10],
                        f_type = ''text/plain''\<rparr> (plainOptions 4) = Returned (res, chunks) \<and>
     r_totalChunks res = 3 \<and>
     chunks = [(0, [1, 2, 3, 4]), (1, [5, 6, 7, 8]), (2, [9, 10])] \<and>
     r_fileHash res =
       toHex (sha256 (sha256 [1, 2, 3, 4] @ sha256 [5, 6, 7, 8] @ sha256 [9, 10]))"
proof -
  let ?f = "\<lparr>f_name = ''notes.txt'', f_content = [1, 2, 3, 4, 5, 6, 7, 8, 9, 10 :: byte],
                        f_type = ''text/plain''\<rparr>"
  have pos: "0 < po_chunkSize (plainOptions 4)" by (simp add: plainOptions_def)
  have run: "\<forall>i. \<not> po_aborted (plainOptions 4) i" by (simp add: plainOptions_def)
  have n: "ceilDiv (f_size ?f) (po_chunkSize (plainOptions 4)) = 3"
    by (simp add: ceilDiv_def f_size_def plainOptions_def)
  have upt3: "[0..<3] = [0, 1, 2]"
    by (simp add: upt_rec)
  from fingerprint_is_digest_of_digests [OF pos run, of ?f]
  obtain res chunks where
    r: "processFileStream ?f (plainOptions 4) = Returned (res, chunks)" and
    t: "r_totalChunks res = ceilDiv (f_size ?f) (po_chunkSize (plainOptions 4))" and
    c: "chunks =
          map (\<lambda>i. (i, blob_slice (i * po_chunkSize (plainOptions 4))
                          (min ((i + 1) * po_chunkSize (plainOptions 4)) (f_size ?f)) (f_content ?f)))
            [0..<r_totalChunks res]" and
    h: "r_fileHash res =
          toHex (sha256 (concat
            (map (\<lambda>i. sha256 (blob_slice (i * po_chunkSize (plainOptions 4))
                                 (min ((i + 1) * po_chunkSize (plainOptions 4)) (f_size ?f))
                                 (f_content ?f)))
               [0..<r_totalChunks res])))"
    by blast
  from t n have three: "r_totalChunks res = 3" by simp
  have c': "chunks = [(0, [1, 2, 3, 4]), (1, [5, 6, 7, 8]), (2, [9, 10])]"
    unfolding c three upt3 by (simp add: blob_slice_def f_size_def plainOptions_def)
  have h': "r_fileHash res =
      toHex (sha256 (sha256 [1, 2, 3, 4] @ sha256 [5, 6, 7, 8] @ sha256 [9, 10]))"
    unfolding h three upt3 by (simp add: blob_slice_def f_size_def plainOptions_def)
  from r three c' h' show ?thesis
    by blast
qed

text \<open>
  C7 (chunk size policy). \<^verbatim>\<open>getOptimalChunkSize\<close> is the step function of the file size:
  256 KiB below 10 MiB, 512 KiB from 10 MiB below 100 MiB, 1 MiB from 100 MiB below 1 GiB,
  2 MiB from 1 GiB below 10 GiB, 4 MiB from 10 GiB on; and it is monotonic.
\<close>

theorem getOptimalChunkSize_steps:
  "(fileSize < 10 * MiB \<longrightarrow> getOptimalChunkSize fileSize = 256 * KiB) \<and>
   (10 * MiB \<le> fileSize \<and> fileSize < 100 * MiB \<longrightarrow> getOptimalChunkSize fileSize = 512 * KiB) \<and>
   (100 * MiB \<le> fileSize \<and> fileSize < GiB \<longrightarrow> getOptimalChunkSize fileSize = MiB) \<and>
   (GiB \<le> fileSize \<and> fileSize < 10 * GiB \<longrightarrow> getOptimalChunkSize fileSize = 2 * MiB) \<and>
   (10 * GiB \<le> fileSize \<longrightarrow> getOptimalChunkSize fileSize = 4 * MiB) \<and>
   (\<forall>smaller. smaller \<le> fileSize \<longrightarrow> getOptimalChunkSize smaller \<le> getOptimalChunkSize fileSize)"
  by (simp add: getOptimalChunkSize_def KiB_def MiB_def GiB_def)

theorem getOptimalChunkSize_steps_witness:
  "getOptimalChunkSize (50 * MiB) = 512 * KiB \<and>
   getOptimalChunkSize (3 * MiB) \<le> getOptimalChunkSize (50 * MiB)"
proof -
  have a: "10 * MiB \<le> 50 * MiB \<and> 50 * MiB < 100 * MiB" by (simp add: MiB_def)
  have b: "3 * MiB \<le> 50 * MiB" by (simp add: MiB_def)
  from getOptimalChunkSize_steps [of "50 * MiB"] a b show ?thesis by blast
qed

text \<open>
  C8, as amended. A file of exactly 260 MiB is in the bucket from 100 MiB below 1 GiB: the
  selected chunk size is 1 MiB (1048576 bytes) and the total chunk count,
  \<open>ceil (272629760 / 1048576)\<close>, is 260.
\<close>

theorem chunks_of_260_MiB:
  "getOptimalChunkSize (260 * 1024 * 1024) = 1048576 \<and>
   ceilDiv (260 * 1024 * 1024) (getOptimalChunkSize (260 * 1024 * 1024)) = 260"
  by (simp add: getOptimalChunkSize_def ceilDiv_def)

text \<open>
  C8 as stated fails: the chunk size selected for 260 MiB is not 512 KiB (524288 bytes), and
  \<open>ceil (260 * 1024 * 1024 / 524288)\<close> is 520, not 521.
\<close>

theorem chunks_of_260_MiB_counterexample:
  "getOptimalChunkSize (260 * 1024 * 1024) \<noteq> 524288 \<and>
   ceilDiv (260 * 1024 * 1024) 524288 \<noteq> 521 \<and>
   ceilDiv (260 * 1024 * 1024) (getOptimalChunkSize (260 * 1024 * 1024)) \<noteq> 521"
  by (simp add: getOptimalChunkSize_def ceilDiv_def)

section \<open>Facts about the sender\<close>

lemma trace_receive: "trace (receive fn st m) = trace st @ [Received m]"
  by (simp add: receive_def handleChunkAck_def split: msg.splits)

lemma pending_receive:
  "i \<in> pendingChunks (receive fn st m) \<longleftrightarrow> i \<in> pendingChunks st \<and> m \<noteq> ChunkAck fn i"
  by (auto simp: receive_def handleChunkAck_def split: msg.splits)

lemma trace_deliver: "trace (deliver fn ms st) = trace st @ map Received ms"
  unfolding deliver_def by (induction ms arbitrary: st) (simp_all add: trace_receive)

lemma pending_deliver:
  "i \<in> pendingChunks (deliver fn ms st) \<longleftrightarrow> i \<in> pendingChunks st \<and> ChunkAck fn i \<notin> set ms"
  unfolding deliver_def by (induction ms arbitrary: st) (auto simp: pending_receive)

lemma waitForAck_spec:
  "waitForAck fn i n ts st = (b, st') \<Longrightarrow>
     \<exists>ms. trace st' = trace st @ map Received ms \<and>
          (b \<longleftrightarrow> i \<notin> pendingChunks st \<or> ChunkAck fn i \<in> set ms) \<and>
          (b \<longleftrightarrow> i \<notin> pendingChunks st \<or> ChunkAck fn i \<in> set (concat (take n ts)))"
proof (induction n arbitrary: ts st)
  case 0
  then show ?case by (intro exI [of _ "[]"]) auto
next
  case (Suc n)
  show ?case
  proof (cases "i \<in> pendingChunks st")
    case False
    with Suc.prems show ?thesis by (intro exI [of _ "[]"]) auto
  next
    case True
    define t where "t = (case ts of [] \<Rightarrow> [] | t # _ \<Rightarrow> t)"
    from True Suc.prems have "waitForAck fn i n (tl ts) (deliver fn t st) = (b, st')"
      by (simp add: t_def)
    from Suc.IH [OF this] obtain ms where
      ms: "trace st' = trace (deliver fn t st) @ map Received ms"
          "b \<longleftrightarrow> i \<notin> pendingChunks (deliver fn t st) \<or> ChunkAck fn i \<in> set ms"
          "b \<longleftrightarrow> i \<notin> pendingChunks (deliver fn t st) \<or> ChunkAck fn i \<in> set (concat (take n (tl ts)))"
      by blast
    have win: "concat (take (Suc n) ts) = t @ concat (take n (tl ts))"
      by (cases ts) (simp_all add: t_def)
    show ?thesis
      using ms True by (intro exI [of _ "t @ ms"]) (auto simp: trace_deliver pending_deliver win)
  qed
qed

lemma awaitFinal_trace:
  "awaitFinal fn ms st = (b, st') \<Longrightarrow> \<exists>ms'. trace st' = trace st @ map Received ms'"
proof (induction ms arbitrary: st)
  case Nil
  then show ?case by (intro exI [of _ "[]"]) auto
next
  case (Cons m ms)
  show ?case
  proof (cases "\<exists>sz h. m = FileComplete fn True sz h")
    case True
    with Cons.prems have "st' = receive fn st m" by (auto simp: Let_def)
    then show ?thesis by (intro exI [of _ "[m]"]) (simp add: trace_receive)
  next
    case False
    with Cons.prems have "awaitFinal fn ms (receive fn st m) = (b, st')"
      by (auto simp: Let_def split: msg.splits if_splits)
    from Cons.IH [OF this] obtain ms' where "trace st' = trace (receive fn st m) @ map Received ms'"
      by blast
    then show ?thesis by (intro exI [of _ "m # ms'"]) (simp add: trace_receive)
  qed
qed

lemma sentChunks_append: "sentChunks (a @ b) = sentChunks a @ sentChunks b"
  by (induction a rule: sentChunks.induct) simp_all

lemma sentChunks_Received: "sentChunks (map Received ms) = []"
  by (induction ms) simp_all

lemma ackedAfter_append: "ackedAfter fn i tr \<Longrightarrow> ackedAfter fn i (tr @ es)"
proof -
  assume "ackedAfter fn i tr"
  then obtain r q where rq: "r < q" "q < length tr" "isChunkSend fn i (tr ! r)"
    "tr ! q = Received (ChunkAck fn i)"
    unfolding ackedAfter_def by blast
  then have "r < q \<and> q < length (tr @ es) \<and> isChunkSend fn i ((tr @ es) ! r) \<and>
    (tr @ es) ! q = Received (ChunkAck fn i)"
    by (simp add: nth_append)
  then show ?thesis unfolding ackedAfter_def by blast
qed

lemma ackGated_snoc:
  assumes "ackGated fn tr" and "\<And>i. isChunkSend fn (Suc i) e \<Longrightarrow> ackedAfter fn i tr"
  shows "ackGated fn (tr @ [e])"
  unfolding ackGated_def
proof (intro allI impI)
  fix p i
  assume p: "p < length (tr @ [e])" and c: "isChunkSend fn (Suc i) ((tr @ [e]) ! p)"
  show "\<exists>r q. r < q \<and> q < p \<and> isChunkSend fn i ((tr @ [e]) ! r) \<and>
              (tr @ [e]) ! q = Received (ChunkAck fn i)"
  proof (cases "p < length tr")
    case True
    with c have "isChunkSend fn (Suc i) (tr ! p)" by (simp add: nth_append)
    with assms(1) True obtain r q where
      "r < q" "q < p" "isChunkSend fn i (tr ! r)" "tr ! q = Received (ChunkAck fn i)"
      unfolding ackGated_def by blast
    with True have "r < q \<and> q < p \<and> isChunkSend fn i ((tr @ [e]) ! r) \<and>
              (tr @ [e]) ! q = Received (ChunkAck fn i)"
      by (simp add: nth_append)
    then show ?thesis by blast
  next
    case False
    with p have pe: "p = length tr" by simp
    with c have "isChunkSend fn (Suc i) e" by simp
    from assms(2) [OF this] obtain r q where
      "r < q" "q < length tr" "isChunkSend fn i (tr ! r)" "tr ! q = Received (ChunkAck fn i)"
      unfolding ackedAfter_def by blast
    with pe have "r < q \<and> q < p \<and> isChunkSend fn i ((tr @ [e]) ! r) \<and>
              (tr @ [e]) ! q = Received (ChunkAck fn i)"
      by (simp add: nth_append)
    then show ?thesis by blast
  qed
qed

lemma ackGated_Received: "ackGated fn tr \<Longrightarrow> ackGated fn (tr @ map Received ms)"
proof (induction ms rule: rev_induct)
  case Nil
  then show ?case by simp
next
  case (snoc m ms)
  then have "ackGated fn ((tr @ map Received ms) @ [Received m])"
    by (intro ackGated_snoc) (simp_all add: isChunkSend_def)
  then show ?case by simp
qed

lemma ackedAfter_sent_received:
  assumes "ChunkAck fn i \<in> set ms"
  shows "ackedAfter fn i (tr @ Sent (FileChunk fn i t d l) # map Received ms)"
proof -
  from assms obtain k where k: "k < length ms" "ms ! k = ChunkAck fn i"
    by (auto simp: in_set_conv_nth)
  let ?tr = "tr @ Sent (FileChunk fn i t d l) # map Received ms"
  have "length tr < Suc (length tr + k) \<and> Suc (length tr + k) < length ?tr \<and>
        isChunkSend fn i (?tr ! length tr) \<and> ?tr ! Suc (length tr + k) = Received (ChunkAck fn i)"
    using k by (simp add: nth_append isChunkSend_def)
  then show ?thesis unfolding ackedAfter_def by blast
qed


lemma sendLoop_done: "\<not> i < N \<Longrightarrow> sendLoop f N env i st = (Inr (), st)"
  by (subst sendLoop.simps) simp

lemma sendLoop_closed:
  "i < N \<Longrightarrow> \<not> connOpen (env i) \<Longrightarrow> sendLoop f N env i st = (Inl ConnectionLost, st)"
  by (subst sendLoop.simps) simp

text \<open>One iteration of the loop with the connection open.\<close>

lemma sendLoop_round:
  assumes "i < N" and "connOpen (env i)"
  shows "\<exists>ms st5.
           trace st5 = trace st @ map Received (before_send (env i)) @
                         Sent (chunkMessage f N i) # map Received ms \<and>
           (ackedInWindow (env i) (f_name f) i \<longrightarrow>
              ChunkAck (f_name f) i \<in> set ms \<and>
              sendLoop (DomFile f) N env i st =
                sendLoop (DomFile f) N env (Suc i) (deliver (f_name f) (after_ack (env i)) st5)) \<and>
           (\<not> ackedInWindow (env i) (f_name f) i \<longrightarrow>
              sendLoop (DomFile f) N env i st = (Inl (ChunkTimeout i), st5))"
proof -
  let ?fn = "f_name f"
  let ?st1 = "deliver ?fn (before_send (env i)) st"
  let ?st2 = "?st1\<lparr>pendingChunks := insert i (pendingChunks ?st1)\<rparr>"
  let ?m = "FileChunk ?fn i N
              (Binary (blob_slice (i * CHUNK_SIZE) (min (i * CHUNK_SIZE + CHUNK_SIZE) (f_size f)) (f_content f)))
              (i = N - 1)"
  let ?st3 = "send ?m ?st2"
  let ?st4 = "?st3\<lparr>sentBytes := sentBytes ?st3 +
      length (blob_slice (i * CHUNK_SIZE) (min (i * CHUNK_SIZE + CHUNK_SIZE) (f_size f)) (f_content f))\<rparr>"
  obtain b st5 where w: "waitForAck ?fn i ackPolls (ticks (env i)) ?st4 = (b, st5)"
    by fastforce
  have m: "?m = chunkMessage f N i"
    using assms(1) by (auto simp: chunkMessage_def add.commute)
  have tr4: "trace ?st4 = trace st @ map Received (before_send (env i)) @ [Sent (chunkMessage f N i)]"
    unfolding m by (simp add: send_def trace_deliver)
  have pend: "i \<in> pendingChunks ?st4"
    by (simp add: send_def)
  from waitForAck_spec [OF w] pend obtain ms where
    ms: "trace st5 = trace ?st4 @ map Received ms"
        "b \<longleftrightarrow> ChunkAck ?fn i \<in> set ms"
        "b \<longleftrightarrow> ChunkAck ?fn i \<in> set (concat (take ackPolls (ticks (env i))))"
    by blast
  have unfold: "sendLoop (DomFile f) N env i st =
      (if \<not> b then (Inl (ChunkTimeout i), st5)
       else sendLoop (DomFile f) N env (Suc i) (deliver ?fn (after_ack (env i)) st5))"
    using assms w by (subst sendLoop.simps) (simp add: Let_def file_slice_def)
  have "trace st5 = trace st @ map Received (before_send (env i)) @
                         Sent (chunkMessage f N i) # map Received ms"
    using ms(1) tr4 by simp
  moreover have "ackedInWindow (env i) ?fn i \<longleftrightarrow> b"
    using ms(3) by (simp add: ackedInWindow_def)
  ultimately show ?thesis
    using unfold ms(2) by (intro exI [of _ ms] exI [of _ st5]) simp
qed

lemma sendLoop_chunks:
  "i \<le> N \<Longrightarrow> sendLoop (DomFile f) N env i st = (res, st') \<Longrightarrow>
   \<exists>k. i \<le> k \<and> k \<le> N \<and>
       (\<forall>j. i \<le> j \<and> j < k \<longrightarrow> connOpen (env j) \<and> ackedInWindow (env j) (f_name f) j) \<and>
       ((res = Inr () \<and> k = N \<and>
           sentChunks (trace st') = sentChunks (trace st) @ map (chunkMessage f N) [i..<k]) \<or>
        (res = Inl ConnectionLost \<and> k < N \<and> \<not> connOpen (env k) \<and>
           sentChunks (trace st') = sentChunks (trace st) @ map (chunkMessage f N) [i..<k]) \<or>
        (res = Inl (ChunkTimeout k) \<and> k < N \<and> connOpen (env k) \<and>
           \<not> ackedInWindow (env k) (f_name f) k \<and>
           sentChunks (trace st') = sentChunks (trace st) @ map (chunkMessage f N) [i..<Suc k]))"
proof (induction "N - i" arbitrary: i st)
  case 0
  then have "i = N" by simp
  with "0.prems" show ?case
    by (intro exI [of _ N]) (auto simp: sendLoop_done)
next
  case (Suc n)
  then have lt: "i < N" by simp
  show ?case
  proof (cases "connOpen (env i)")
    case False
    with lt Suc.prems show ?thesis
      by (intro exI [of _ i]) (auto simp: sendLoop_closed)
  next
    case True
    from sendLoop_round [where i = i and N = N and env = env and f = f and st = st, OF lt True] obtain ms st5 where
      tr5: "trace st5 = trace st @ map Received (before_send (env i)) @
                         Sent (chunkMessage f N i) # map Received ms" and
      ok: "ackedInWindow (env i) (f_name f) i \<Longrightarrow>
              sendLoop (DomFile f) N env i st =
                sendLoop (DomFile f) N env (Suc i) (deliver (f_name f) (after_ack (env i)) st5)" and
      bad: "\<not> ackedInWindow (env i) (f_name f) i \<Longrightarrow>
              sendLoop (DomFile f) N env i st = (Inl (ChunkTimeout i), st5)"
      by blast
    have sent5: "sentChunks (trace st5) = sentChunks (trace st) @ [chunkMessage f N i]"
      by (simp add: tr5 sentChunks_append sentChunks_Received chunkMessage_def)
    show ?thesis
    proof (cases "ackedInWindow (env i) (f_name f) i")
      case False
      from bad [OF False] Suc.prems(2) have "res = Inl (ChunkTimeout i)" "st' = st5" by simp_all
      with lt True False sent5 show ?thesis
        by (intro exI [of _ i]) auto
    next
      case acked: True
      let ?st6 = "deliver (f_name f) (after_ack (env i)) st5"
      have sent6: "sentChunks (trace ?st6) = sentChunks (trace st) @ [chunkMessage f N i]"
        by (simp add: trace_deliver sentChunks_append sentChunks_Received sent5)
      from ok [OF acked] Suc.prems(2) have run: "sendLoop (DomFile f) N env (Suc i) ?st6 = (res, st')"
        by simp
      from Suc.hyps(2) lt have n: "n = N - Suc i" by simp
      from lt have le: "Suc i \<le> N" by simp
      from Suc.hyps(1) [OF n le run] obtain k where
        k: "Suc i \<le> k" "k \<le> N"
           "\<forall>j. Suc i \<le> j \<and> j < k \<longrightarrow> connOpen (env j) \<and> ackedInWindow (env j) (f_name f) j" and
        cases: "(res = Inr () \<and> k = N \<and>
           sentChunks (trace st') = sentChunks (trace ?st6) @ map (chunkMessage f N) [Suc i..<k]) \<or>
        (res = Inl ConnectionLost \<and> k < N \<and> \<not> connOpen (env k) \<and>
           sentChunks (trace st') = sentChunks (trace ?st6) @ map (chunkMessage f N) [Suc i..<k]) \<or>
        (res = Inl (ChunkTimeout k) \<and> k < N \<and> connOpen (env k) \<and>
           \<not> ackedInWindow (env k) (f_name f) k \<and>
           sentChunks (trace st') = sentChunks (trace ?st6) @ map (chunkMessage f N) [Suc i..<Suc k])"
        by blast
      from k(1) have u1: "[i..<k] = i # [Suc i..<k]" by (simp add: upt_conv_Cons)
      from k(1) have u2: "[i..<Suc k] = i # [Suc i..<Suc k]" by (simp add: upt_conv_Cons)
      have all: "\<forall>j. i \<le> j \<and> j < k \<longrightarrow> connOpen (env j) \<and> ackedInWindow (env j) (f_name f) j"
      proof (intro allI impI)
        fix j assume j: "i \<le> j \<and> j < k"
        show "connOpen (env j) \<and> ackedInWindow (env j) (f_name f) j"
        proof (cases "j = i")
          case True
          with \<open>connOpen (env i)\<close> acked show ?thesis by simp
        next
          case False
          with j k(3) show ?thesis by simp
        qed
      qed
      from cases have "(res = Inr () \<and> k = N \<and>
           sentChunks (trace st') = sentChunks (trace st) @ map (chunkMessage f N) [i..<k]) \<or>
        (res = Inl ConnectionLost \<and> k < N \<and> \<not> connOpen (env k) \<and>
           sentChunks (trace st') = sentChunks (trace st) @ map (chunkMessage f N) [i..<k]) \<or>
        (res = Inl (ChunkTimeout k) \<and> k < N \<and> connOpen (env k) \<and>
           \<not> ackedInWindow (env k) (f_name f) k \<and>
           sentChunks (trace st') = sentChunks (trace st) @ map (chunkMessage f N) [i..<Suc k])"
        unfolding sent6 u1 u2 by simp
      with k(1,2) all show ?thesis
        by (intro exI [of _ k]) simp
    qed
  qed
qed

lemma sendLoop_gated:
  "i \<le> N \<Longrightarrow> sendLoop (DomFile f) N env i st = (res, st') \<Longrightarrow>
   ackGated (f_name f) (trace st) \<Longrightarrow>
   (\<And>j. i = Suc j \<Longrightarrow> ackedAfter (f_name f) j (trace st)) \<Longrightarrow>
   ackGated (f_name f) (trace st')"
proof (induction "N - i" arbitrary: i st)
  case 0
  then have "i = N" by simp
  with "0.prems" show ?case by (simp add: sendLoop_done)
next
  case (Suc n)
  then have lt: "i < N" by simp
  show ?case
  proof (cases "connOpen (env i)")
    case False
    with lt Suc.prems show ?thesis by (simp add: sendLoop_closed)
  next
    case True
    let ?fn = "f_name f"
    from sendLoop_round [where i = i and N = N and env = env and f = f and st = st, OF lt True] obtain ms st5 where
      tr5: "trace st5 = trace st @ map Received (before_send (env i)) @
                         Sent (chunkMessage f N i) # map Received ms" and
      ok: "ackedInWindow (env i) ?fn i \<Longrightarrow> ChunkAck ?fn i \<in> set ms" and
      go: "ackedInWindow (env i) ?fn i \<Longrightarrow>
              sendLoop (DomFile f) N env i st =
                sendLoop (DomFile f) N env (Suc i) (deliver ?fn (after_ack (env i)) st5)" and
      bad: "\<not> ackedInWindow (env i) ?fn i \<Longrightarrow>
              sendLoop (DomFile f) N env i st = (Inl (ChunkTimeout i), st5)"
      by blast
    let ?tr1 = "trace st @ map Received (before_send (env i))"
    have g1: "ackGated ?fn ?tr1"
      by (rule ackGated_Received [OF Suc.prems(3)])
    have "ackGated ?fn (?tr1 @ [Sent (chunkMessage f N i)])"
    proof (rule ackGated_snoc [OF g1])
      fix j assume "isChunkSend ?fn (Suc j) (Sent (chunkMessage f N i))"
      then have "i = Suc j" by (simp add: isChunkSend_def chunkMessage_def)
      from Suc.prems(4) [OF this] show "ackedAfter ?fn j ?tr1"
        by (rule ackedAfter_append)
    qed
    then have "ackGated ?fn ((?tr1 @ [Sent (chunkMessage f N i)]) @ map Received ms)"
      by (rule ackGated_Received)
    then have g5: "ackGated ?fn (trace st5)"
      by (simp add: tr5)
    show ?thesis
    proof (cases "ackedInWindow (env i) ?fn i")
      case False
      from bad [OF False] Suc.prems(2) have "st' = st5" by simp
      with g5 show ?thesis by simp
    next
      case acked: True
      let ?st6 = "deliver ?fn (after_ack (env i)) st5"
      from go [OF acked] Suc.prems(2) have run: "sendLoop (DomFile f) N env (Suc i) ?st6 = (res, st')"
        by simp
      have g6: "ackGated ?fn (trace ?st6)"
        using ackGated_Received [OF g5] by (simp add: trace_deliver)
      have "ackedAfter ?fn i (?tr1 @ Sent (chunkMessage f N i) # map Received ms)"
        unfolding chunkMessage_def by (rule ackedAfter_sent_received [OF ok [OF acked]])
      then have "ackedAfter ?fn i (trace st5)" by (simp add: tr5)
      then have a6: "ackedAfter ?fn i (trace ?st6)"
        unfolding trace_deliver by (rule ackedAfter_append)
      from Suc.hyps(2) lt have n: "n = N - Suc i" by simp
      from lt have le: "Suc i \<le> N" by simp
      show ?thesis
        by (rule Suc.hyps(1) [OF n le run g6]) (use a6 in simp)
    qed
  qed
qed


lemma sentChunks_subset: "m \<in> set (sentChunks tr) \<Longrightarrow> Sent m \<in> set tr"
  by (induction tr rule: sentChunks.induct) auto

lemma sentChunks_sound: "m \<in> set (sentChunks tr) \<Longrightarrow> \<exists>p < length tr. tr ! p = Sent m"
  using sentChunks_subset [of m tr] by (auto simp: in_set_conv_nth)

lemma sendLoop_extends:
  "sendLoop (DomFile f) N env i st = (res, st') \<Longrightarrow> \<exists>es. trace st' = trace st @ es"
proof (induction "N - i" arbitrary: i st)
  case 0
  then show ?case by (simp add: sendLoop_done)
next
  case (Suc n)
  then have lt: "i < N" by simp
  show ?case
  proof (cases "connOpen (env i)")
    case False
    with lt Suc.prems show ?thesis by (simp add: sendLoop_closed)
  next
    case True
    from sendLoop_round [where i = i and N = N and env = env and f = f and st = st, OF lt True]
    obtain ms st5 where
      tr5: "trace st5 = trace st @ map Received (before_send (env i)) @
                         Sent (chunkMessage f N i) # map Received ms" and
      go: "ackedInWindow (env i) (f_name f) i \<Longrightarrow>
              sendLoop (DomFile f) N env i st =
                sendLoop (DomFile f) N env (Suc i) (deliver (f_name f) (after_ack (env i)) st5)" and
      bad: "\<not> ackedInWindow (env i) (f_name f) i \<Longrightarrow>
              sendLoop (DomFile f) N env i st = (Inl (ChunkTimeout i), st5)"
      by blast
    show ?thesis
    proof (cases "ackedInWindow (env i) (f_name f) i")
      case False
      from bad [OF False] Suc.prems have "st' = st5" by simp
      with tr5 show ?thesis by simp
    next
      case acked: True
      from go [OF acked] Suc.prems
      have run: "sendLoop (DomFile f) N env (Suc i) (deliver (f_name f) (after_ack (env i)) st5) = (res, st')"
        by simp
      from Suc.hyps(2) lt have n: "n = N - Suc i" by simp
      from Suc.hyps(1) [OF n run] obtain es where
        "trace st' = trace (deliver (f_name f) (after_ack (env i)) st5) @ es" by blast
      then show ?thesis by (simp add: trace_deliver tr5)
    qed
  qed
qed

text \<open>
  The whole run of \<^verbatim>\<open>sendFileInChunks\<close>. The hash generation fails for every file, because
  the right-hand side of \<^verbatim>\<open>file instanceof File\<close> cannot be called; the run sends
  \<^verbatim>\<open>transfer-error\<close> and nothing else, and the loop is never entered.
\<close>

lemma generateFileHash_fails:
  "generateFileHash file = Inl (HashGenerationFailed InstanceofNotCallable)"
  by (simp add: generateFileHash_def instanceOf_def lucide_File_def)

lemma sendFileInChunks_run:
  "sendFileInChunks file env =
     (Inl (HashGenerationFailed InstanceofNotCallable),
      \<lparr>pendingChunks = {}, acknowledgedChunks = 0, sentBytes = 0,
       trace = [Sent (TransferError (u_name file) (HashGenerationFailed InstanceofNotCallable))]\<rparr>)"
  by (simp add: sendFileInChunks_def generateFileHash_fails send_def Let_def)


section \<open>Claims about the sender\<close>


text \<open>
  C10 (fixed chunk size of the sender). \<^verbatim>\<open>sendFileInChunks\<close> computes \<^verbatim>\<open>totalChunks\<close> with the
  constant 256 KiB, whatever \<^verbatim>\<open>getOptimalChunkSize\<close> would choose: for a file of 10 MiB that
  is 40 chunks, where the policy gives 512 KiB and 20 chunks. But it advertises the number to
  nobody: the run of the file of 10 MiB, dropped and requested or passed as the \<^verbatim>\<open>File\<close> of the
  DOM, with a peer that acknowledges every chunk, sends no \<^verbatim>\<open>file-start\<close> and no
  \<^verbatim>\<open>file-chunk\<close>. The only message is the \<^verbatim>\<open>transfer-error\<close> of the failed hash generation.
\<close>

theorem file_start_not_sent:
  "ceilDiv (f_size tenMiBFile) CHUNK_SIZE = 40 \<and>
   getOptimalChunkSize (f_size tenMiBFile) = 512 * KiB \<and>
   ceilDiv (f_size tenMiBFile) (getOptimalChunkSize (f_size tenMiBFile)) = 20 \<and>
   onDrop [tenMiBFile] [] = [PlainObject ''ten.bin'' (10 * MiB) ''application/octet-stream''] \<and>
   trace (snd (sendFileInChunks (PlainObject ''ten.bin'' (10 * MiB) ''application/octet-stream'')
                 (allAcked ''ten.bin''))) =
     [Sent (TransferError ''ten.bin'' (HashGenerationFailed InstanceofNotCallable))] \<and>
   trace (snd (sendFileInChunks (DomFile tenMiBFile) (allAcked ''ten.bin''))) =
     [Sent (TransferError ''ten.bin'' (HashGenerationFailed InstanceofNotCallable))] \<and>
   fst (sendFileInChunks (DomFile tenMiBFile) (allAcked ''ten.bin'')) =
     Inl (HashGenerationFailed InstanceofNotCallable)"
  by (simp add: tenMiBFile_def f_size_def ceilDiv_def CHUNK_SIZE_def MiB_def KiB_def
      getOptimalChunkSize_def onDrop_def sendFileInChunks_def generateFileHash_def
      instanceOf_def lucide_File_def send_def Let_def)


section \<open>Facts about the receiver\<close>

lemma scanChunks_eq:
  "scanChunks fc n =
     (filter (\<lambda>i. fc i = None) [0..<n],
      filter (\<lambda>i. fc i = Some []) [0..<n],
      sum_list (map (\<lambda>i. case fc i of None \<Rightarrow> 0 | Some chunk \<Rightarrow> length chunk) [0..<n]))"
  unfolding scanChunks_def
  by (induction n) (auto split: option.splits)

lemma collectChunks_present:
  "\<forall>i \<in> set is. fc i \<noteq> None \<Longrightarrow> collectChunks fc is = Inr (map (\<lambda>i. the (fc i)) is)"
  by (induction "is") auto

lemma length_reassembled:
  "\<forall>i < n. fc i \<noteq> None \<Longrightarrow>
   length (reassembled fc n) =
     sum_list (map (\<lambda>i. case fc i of None \<Rightarrow> 0 | Some chunk \<Rightarrow> length chunk) [0..<n])"
proof -
  assume p: "\<forall>i < n. fc i \<noteq> None"
  have eq: "map (\<lambda>i. length (the (fc i))) [0..<n] =
        map (\<lambda>i. case fc i of None \<Rightarrow> 0 | Some chunk \<Rightarrow> length chunk) [0..<n]"
    using p by (intro map_cong) auto
  have "length (reassembled fc n) = sum_list (map (\<lambda>i. length (the (fc i))) [0..<n])"
    by (simp add: reassembled_def length_concat comp_def)
  also have "\<dots> = sum_list (map (\<lambda>i. case fc i of None \<Rightarrow> 0 | Some chunk \<Rightarrow> length chunk) [0..<n])"
    by (simp only: eq)
  finally show ?thesis .
qed

text \<open>The handler stores only non-empty chunks and never changes the name of its download.\<close>

lemma downloadHandler_name: "dl_fileName (fst (downloadHandler d m st)) = dl_fileName d"
  by (auto simp: downloadHandler_def Let_def split: msg.splits payload.splits)

lemma downloadHandler_nonempty:
  "nonemptyChunks d \<Longrightarrow> nonemptyChunks (fst (downloadHandler d m st))"
  by (auto simp: downloadHandler_def nonemptyChunks_def Let_def split: msg.splits payload.splits)

lemma feed_invariant:
  "nonemptyChunks (fst start) \<Longrightarrow>
   nonemptyChunks (fst (feed start ms)) \<and> dl_fileName (fst (feed start ms)) = dl_fileName (fst start)"
proof (induction ms rule: rev_induct)
  case Nil
  then show ?case by (simp add: feed_def)
next
  case (snoc m ms)
  obtain d st where ds: "feed start ms = (d, st)" by fastforce
  have step: "feed start (ms @ [m]) = downloadHandler d m st"
    using ds by (simp add: feed_def)
  from snoc ds have "nonemptyChunks d" "dl_fileName d = dl_fileName (fst start)" by simp_all
  then show ?case
    unfolding step using downloadHandler_nonempty [of d m st] downloadHandler_name [of d m st]
    by simp
qed

lemma newDownload_invariant: "nonemptyChunks (newDownload name) \<and> dl_fileName (newDownload name) = name"
  by (simp add: nonemptyChunks_def newDownload_def)

text \<open>What \<^verbatim>\<open>completeFileDownload\<close> does on a reassembly map without empty chunks.\<close>

lemma complete_missing:
  assumes "\<exists>i < n. fc i = None"
  shows "completeFileDownload name fc n e h st =
           reportFailure name (MissingChunks (filter (\<lambda>i. fc i = None) [0..<n])) st"
proof -
  from assms have "filter (\<lambda>i. fc i = None) [0..<n] \<noteq> []"
    by (auto simp: filter_empty_conv)
  then show ?thesis
    by (simp add: completeFileDownload_def scanChunks_eq)
qed

lemma complete_present:
  assumes all: "\<forall>i < n. fc i \<noteq> None" and ne: "\<forall>i chunk. fc i = Some chunk \<longrightarrow> chunk \<noteq> []"
  shows "completeFileDownload name fc n e h st =
           (if length (reassembled fc n) \<noteq> e
            then reportFailure name (SizeMismatch e (length (reassembled fc n))) st
            else if toHex (sha256 (reassembled fc n)) \<noteq> h
            then reportFailure name IntegrityMismatch st
            else st\<lparr>outbox := outbox st @
                        [FileComplete name True (length (reassembled fc n))
                           (toHex (sha256 (reassembled fc n)))],
                    downloadedFiles := (downloadedFiles st)(name \<mapsto> reassembled fc n),
                    verifiedFiles := (verifiedFiles st)(name \<mapsto> True),
                    isDownloading := False,
                    downloadErrors := (downloadErrors st)(name := None)\<rparr>)"
proof -
  have m: "filter (\<lambda>i. fc i = None) [0..<n] = []"
    using all by (auto simp: filter_empty_conv)
  have c: "filter (\<lambda>i. fc i = Some []) [0..<n] = []"
    using ne by (auto simp: filter_empty_conv)
  have col: "collectChunks fc [0..<n] = Inr (map (\<lambda>i. the (fc i)) [0..<n])"
    using all by (intro collectChunks_present) simp
  have blob: "concat (map (\<lambda>i. the (fc i)) [0..<n]) = reassembled fc n"
    by (simp add: reassembled_def)
  show ?thesis
    by (simp add: completeFileDownload_def scanChunks_eq m c col blob
        length_reassembled [OF all, symmetric] Let_def)
qed


section \<open>Claims about the receiver\<close>

text \<open>
  C3 (verification at reassembly). Let \<open>d\<close> be the reassembly state of a download after its
  handler has processed any sequence of messages, and let \<^verbatim>\<open>completeFileDownload\<close> run on it
  (as the handler does) in any state of the component. If an index below \<open>totalChunks\<close> has no
  stored chunk, \<open>MissingChunks\<close> with exactly the missing indices is recorded for the file and
  sent as \<^verbatim>\<open>file-error\<close>. If every index is present but the reassembled length differs from
  the expected size, \<open>SizeMismatch\<close> is recorded and sent. If the length matches but the
  SHA-256 digest of the reassembled bytes differs from the expected fingerprint,
  \<open>IntegrityMismatch\<close> is recorded and sent. When all three checks pass, \<^verbatim>\<open>file-complete\<close> with
  \<^verbatim>\<open>verified: true\<close> is sent and the file is stored as verified; when one of them fails, the one
  message sent is a \<^verbatim>\<open>file-error\<close> whose error is recorded, so no \<^verbatim>\<open>file-complete\<close> is sent.
\<close>

theorem reassembly_checks:
  assumes "d = fst (feed (newDownload name, st0) msgs)"
    and "r = completeFileDownload (dl_fileName d) (dl_fileChunks d) (dl_totalChunks d)
               (dl_expectedFileSize d) (dl_expectedFileHash d) st"
  shows
   "((\<exists>i < dl_totalChunks d. dl_fileChunks d i = None) \<longrightarrow>
       (\<exists>missing. missing \<noteq> [] \<and>
          set missing = {i. i < dl_totalChunks d \<and> dl_fileChunks d i = None} \<and>
          downloadErrors r name = Some (MissingChunks missing) \<and>
          outbox r = outbox st @ [FileError name (MissingChunks missing)])) \<and>
    ((\<forall>i < dl_totalChunks d. dl_fileChunks d i \<noteq> None) \<and>
     length (reassembled (dl_fileChunks d) (dl_totalChunks d)) \<noteq> dl_expectedFileSize d \<longrightarrow>
       downloadErrors r name =
         Some (SizeMismatch (dl_expectedFileSize d)
                 (length (reassembled (dl_fileChunks d) (dl_totalChunks d)))) \<and>
       outbox r = outbox st @
         [FileError name (SizeMismatch (dl_expectedFileSize d)
                            (length (reassembled (dl_fileChunks d) (dl_totalChunks d))))]) \<and>
    ((\<forall>i < dl_totalChunks d. dl_fileChunks d i \<noteq> None) \<and>
     length (reassembled (dl_fileChunks d) (dl_totalChunks d)) = dl_expectedFileSize d \<and>
     toHex (sha256 (reassembled (dl_fileChunks d) (dl_totalChunks d))) \<noteq> dl_expectedFileHash d \<longrightarrow>
       downloadErrors r name = Some IntegrityMismatch \<and>
       outbox r = outbox st @ [FileError name IntegrityMismatch]) \<and>
    ((\<forall>i < dl_totalChunks d. dl_fileChunks d i \<noteq> None) \<and>
     length (reassembled (dl_fileChunks d) (dl_totalChunks d)) = dl_expectedFileSize d \<and>
     toHex (sha256 (reassembled (dl_fileChunks d) (dl_totalChunks d))) = dl_expectedFileHash d \<longrightarrow>
       outbox r = outbox st @
         [FileComplete name True (dl_expectedFileSize d) (dl_expectedFileHash d)] \<and>
       verifiedFiles r name = Some True \<and>
       downloadedFiles r name = Some (reassembled (dl_fileChunks d) (dl_totalChunks d))) \<and>
    (\<not> ((\<forall>i < dl_totalChunks d. dl_fileChunks d i \<noteq> None) \<and>
        length (reassembled (dl_fileChunks d) (dl_totalChunks d)) = dl_expectedFileSize d \<and>
        toHex (sha256 (reassembled (dl_fileChunks d) (dl_totalChunks d))) = dl_expectedFileHash d) \<longrightarrow>
       (\<exists>e. outbox r = outbox st @ [FileError name e] \<and> downloadErrors r name = Some e))"
proof -
  let ?fc = "dl_fileChunks d" and ?n = "dl_totalChunks d"
  let ?e = "dl_expectedFileSize d" and ?h = "dl_expectedFileHash d"
  from feed_invariant [of "(newDownload name, st0)" msgs] newDownload_invariant [of name] assms(1)
  have ne: "nonemptyChunks d" and nm: "dl_fileName d = name" by simp_all
  from ne have ne': "\<forall>i chunk. ?fc i = Some chunk \<longrightarrow> chunk \<noteq> []"
    by (simp add: nonemptyChunks_def)
  have r: "r = completeFileDownload name ?fc ?n ?e ?h st"
    using assms(2) nm by simp
  have missing: "(\<exists>i < ?n. ?fc i = None) \<longrightarrow>
       (\<exists>missing. missing \<noteq> [] \<and> set missing = {i. i < ?n \<and> ?fc i = None} \<and>
          downloadErrors r name = Some (MissingChunks missing) \<and>
          outbox r = outbox st @ [FileError name (MissingChunks missing)])"
  proof
    assume m: "\<exists>i < ?n. ?fc i = None"
    let ?m = "filter (\<lambda>i. ?fc i = None) [0..<?n]"
    from m have "?m \<noteq> []" by (auto simp: filter_empty_conv)
    moreover have "set ?m = {i. i < ?n \<and> ?fc i = None}" by auto
    moreover have "downloadErrors r name = Some (MissingChunks ?m)"
      "outbox r = outbox st @ [FileError name (MissingChunks ?m)]"
      unfolding r complete_missing [OF m] by (simp_all add: reportFailure_def)
    ultimately show "\<exists>missing. missing \<noteq> [] \<and> set missing = {i. i < ?n \<and> ?fc i = None} \<and>
          downloadErrors r name = Some (MissingChunks missing) \<and>
          outbox r = outbox st @ [FileError name (MissingChunks missing)]"
      by blast
  qed
  have present: "(\<forall>i < ?n. ?fc i \<noteq> None) \<Longrightarrow>
      r = (if length (reassembled ?fc ?n) \<noteq> ?e
            then reportFailure name (SizeMismatch ?e (length (reassembled ?fc ?n))) st
            else if toHex (sha256 (reassembled ?fc ?n)) \<noteq> ?h
            then reportFailure name IntegrityMismatch st
            else st\<lparr>outbox := outbox st @
                        [FileComplete name True (length (reassembled ?fc ?n))
                           (toHex (sha256 (reassembled ?fc ?n)))],
                    downloadedFiles := (downloadedFiles st)(name \<mapsto> reassembled ?fc ?n),
                    verifiedFiles := (verifiedFiles st)(name \<mapsto> True),
                    isDownloading := False,
                    downloadErrors := (downloadErrors st)(name := None)\<rparr>)"
    unfolding r by (rule complete_present [OF _ ne'])
  have size: "(\<forall>i < ?n. ?fc i \<noteq> None) \<and> length (reassembled ?fc ?n) \<noteq> ?e \<longrightarrow>
       downloadErrors r name = Some (SizeMismatch ?e (length (reassembled ?fc ?n))) \<and>
       outbox r = outbox st @ [FileError name (SizeMismatch ?e (length (reassembled ?fc ?n)))]"
    using present by (auto simp: reportFailure_def)
  have hash: "(\<forall>i < ?n. ?fc i \<noteq> None) \<and> length (reassembled ?fc ?n) = ?e \<and>
     toHex (sha256 (reassembled ?fc ?n)) \<noteq> ?h \<longrightarrow>
       downloadErrors r name = Some IntegrityMismatch \<and>
       outbox r = outbox st @ [FileError name IntegrityMismatch]"
    using present by (auto simp: reportFailure_def)
  have pass: "(\<forall>i < ?n. ?fc i \<noteq> None) \<and> length (reassembled ?fc ?n) = ?e \<and>
     toHex (sha256 (reassembled ?fc ?n)) = ?h \<longrightarrow>
       outbox r = outbox st @ [FileComplete name True ?e ?h] \<and>
       verifiedFiles r name = Some True \<and>
       downloadedFiles r name = Some (reassembled ?fc ?n)"
    using present by auto
  have fail: "\<not> ((\<forall>i < ?n. ?fc i \<noteq> None) \<and> length (reassembled ?fc ?n) = ?e \<and>
        toHex (sha256 (reassembled ?fc ?n)) = ?h) \<longrightarrow>
       (\<exists>e. outbox r = outbox st @ [FileError name e] \<and> downloadErrors r name = Some e)"
  proof
    assume "\<not> ((\<forall>i < ?n. ?fc i \<noteq> None) \<and> length (reassembled ?fc ?n) = ?e \<and>
        toHex (sha256 (reassembled ?fc ?n)) = ?h)"
    then consider
      (m) "\<exists>i < ?n. ?fc i = None"
      | (s) "(\<forall>i < ?n. ?fc i \<noteq> None) \<and> length (reassembled ?fc ?n) \<noteq> ?e"
      | (h) "(\<forall>i < ?n. ?fc i \<noteq> None) \<and> length (reassembled ?fc ?n) = ?e \<and>
             toHex (sha256 (reassembled ?fc ?n)) \<noteq> ?h"
      by (cases "\<exists>i < ?n. ?fc i = None") auto
    then show "\<exists>e. outbox r = outbox st @ [FileError name e] \<and> downloadErrors r name = Some e"
    proof cases
      case m
      with missing obtain ms where
        "downloadErrors r name = Some (MissingChunks ms)"
        "outbox r = outbox st @ [FileError name (MissingChunks ms)]" by blast
      then show ?thesis by blast
    next
      case s
      with size show ?thesis by blast
    next
      case h
      with hash show ?thesis by blast
    qed
  qed
  show ?thesis
    by (intro conjI) (rule missing, rule size, rule hash, rule pass, rule fail)
qed

theorem reassembly_checks_witness:
  "downloadErrors
     (completeFileDownload ''a.txt'' [0 \<mapsto> [0x61]] 1 5 ''00'' idleDownloader) ''a.txt'' =
     Some (SizeMismatch 5 1) \<and>
   outbox (completeFileDownload ''a.txt'' [0 \<mapsto> [0x61]] 1 5 ''00'' idleDownloader) =
     [FileError ''a.txt'' (SizeMismatch 5 1)]"
proof -
  let ?msgs = "[FileStart ''a.txt'' 5 ''text/plain'' 1 ''00'',
                FileChunk ''a.txt'' 0 1 (Binary [0x61]) False]"
  let ?d = "\<lparr>dl_fileName = ''a.txt'', dl_fileChunks = [0 \<mapsto> [0x61 :: byte]], dl_totalChunks = 1,
             dl_expectedFileSize = 5, dl_expectedFileHash = ''00'', dl_receivedChunks = 1\<rparr>"
  have d: "?d = fst (feed (newDownload ''a.txt'', idleDownloader) ?msgs)"
    by (simp add: feed_def downloadHandler_def newDownload_def Let_def)
  have all: "\<forall>i < dl_totalChunks ?d. dl_fileChunks ?d i \<noteq> None" by simp
  have len: "length (reassembled (dl_fileChunks ?d) (dl_totalChunks ?d)) = 1"
    by (simp add: reassembled_def)
  from reassembly_checks [OF d refl, of idleDownloader] all len show ?thesis
    by (simp add: idleDownloader_def)
qed

text \<open>
  C9 does not hold of the code. \<^verbatim>\<open>Download All Files\<close> calls \<^verbatim>\<open>downloadFile\<close> for every listed
  file in turn on the one connection. With two files the second call overwrites the handler
  slot; the \<^verbatim>\<open>file-start\<close> and the \<^verbatim>\<open>file-chunk\<close> of the first file then change nothing: the
  chunk is not stored, no \<^verbatim>\<open>chunk-ack\<close> is sent (so the sender's 5 s timer fires), and only the
  second download remains.
\<close>

theorem download_all_drops_first_file:
  "onData (FileChunk ''a.txt'' 0 1 (Binary [0x61]) True)
     (onData (FileStart ''a.txt'' 1 ''text/plain'' 1
                ''ca978112ca1bbdcafac231b39a23dc4da786eff8147c4e72b9807785afee48bb'')
        (downloadFile ''b.txt'' (downloadFile ''a.txt'' idleDownloader))) =
   idleDownloader
     \<lparr>isDownloading := True,
      currentDownloadHandler := Some (newDownload ''b.txt''),
      outbox := [RequestFile ''a.txt'', RequestFile ''b.txt'']\<rparr>"
  by (simp add: onData_def handleFileChunk_def downloadHandler_def downloadFile_def
      idleDownloader_def newDownload_def)

text \<open>
  The handler in the slot ignores every message that carries another file name, whatever the
  state: routing is by the most recent \<^verbatim>\<open>downloadFile\<close> call, not by \<^verbatim>\<open>fileName\<close>.
\<close>

lemma other_file_ignored:
  assumes "currentDownloadHandler st = Some d" and "dl_fileName d \<noteq> fn"
  shows "handleFileChunk (FileChunk fn chunkIndex n content isLast) st = st"
    and "handleFileChunk (FileStart fn fSize fType n fHash) st = st"
  using assms by (simp_all add: handleFileChunk_def downloadHandler_def)

section \<open>Facts about the session manager\<close>

lemma storedSession_fileId: "storedSession m fileId = Some x \<Longrightarrow> s_fileId x = fileId"
  by (auto simp: storedSession_def find_Some_iff)

lemma getSession_stored:
  "db (m_store m) \<Longrightarrow> getSession (m_store m) fileId = Inr (storedSession m fileId)"
  by (simp add: getSession_def storedSession_def)

lemma saveSession_stored:
  assumes "db (m_store m)" and "s_fileId x = fileId"
  shows "\<exists>store'. saveSession x (m_store m) = Inr store' \<and> db store' \<and>
           chunkStore store' = chunkStore (m_store m) \<and>
           find (\<lambda>y. s_fileId y = fileId) (sessionStore store') = Some x"
  using assms by (simp add: saveSession_def)

lemma statusOf_updateState:
  "statusOf (updateState fileId change m) fileId = map_option (ts_status \<circ> change) (activeSessions m fileId)"
  by (simp add: statusOf_def updateState_def split: option.splits)

lemma updateState_fields [simp]:
  "m_store (updateState fileId change m) = m_store m"
  "m_sent (updateState fileId change m) = m_sent m"
  "m_callbacks (updateState fileId change m) = m_callbacks m"
  "transferControllers (updateState fileId change m) = transferControllers m"
  "activeSessions (updateState fileId change m) fileId = None \<longleftrightarrow> activeSessions m fileId = None"
  by (simp_all add: updateState_def split: option.splits)

lemma storedSession_updateState [simp]:
  "storedSession (updateState fileId change m) fid = storedSession m fid"
  by (simp add: storedSession_def)

lemma chunkGoesThrough_cong:
  "chunkStore (m_store m') = chunkStore (m_store m) \<Longrightarrow>
   chunkGoesThrough m' fileId env i = chunkGoesThrough m fileId env i"
  by (simp add: chunkGoesThrough_def)

text \<open>One call of \<^verbatim>\<open>transferChunk\<close> on an open database that holds the session.\<close>

lemma transferChunk_run:
  assumes "db (m_store m)" and "storedSession m fileId = Some x"
  shows "\<exists>m'. transferChunk fileId c answer m =
           (if chunkStore (m_store m) (fileId, c) = None then Inl ChunkDataNotAvailable
            else case answer of AckSuccess \<Rightarrow> Inr () | AckFailure \<Rightarrow> Inl (ChunkFailed c)
                 | NoAck \<Rightarrow> Inl (ChunkSendTimeout c), m') \<and>
         sentIndices (m_sent m') =
           sentIndices (m_sent m) @ (if chunkStore (m_store m) (fileId, c) = None then [] else [c]) \<and>
         m_store m' = m_store m \<and> activeSessions m' = activeSessions m \<and>
         transferControllers m' = transferControllers m \<and> m_callbacks m' = m_callbacks m"
  using assms
  by (cases "chunkStore (m_store m) (fileId, c)"; cases answer)
     (simp_all add: transferChunk_def getSession_stored getChunk_def sentIndices_def Let_def)


lemma resumeLoop_run:
  assumes "db (m_store m)" and "storedSession m fileId = Some session"
    and "resumeLoop fileId env rest session m = (res, m')"
  shows "\<exists>k j. k \<le> j \<and> j \<le> Suc k \<and> j \<le> length rest \<and>
     (\<forall>i \<in> set (take k rest). chunkGoesThrough m fileId env i) \<and>
     sentIndices (m_sent m') = sentIndices (m_sent m) @ take j rest \<and>
     storedSession m' fileId =
       Some (session\<lparr>s_completedChunks := s_completedChunks session @ take k rest\<rparr>) \<and>
     db (m_store m') \<and> chunkStore (m_store m') = chunkStore (m_store m) \<and>
     statusOf m' fileId = statusOf m fileId \<and>
     transferControllers m' = transferControllers m \<and>
     (case res of
        Inr s' \<Rightarrow> k = length rest \<and>
                  s' = session\<lparr>s_completedChunks := s_completedChunks session @ rest\<rparr>
      | Inl e \<Rightarrow> k < length rest \<and> \<not> chunkGoesThrough m fileId env (rest ! k) \<and>
                 j = (if \<not> ce_aborted (env (rest ! k)) \<and>
                         chunkStore (m_store m) (fileId, rest ! k) \<noteq> None
                      then Suc k else k))"
  using assms
proof (induction rest arbitrary: session m)
  case Nil
  then show ?case
    by (intro exI [of _ 0]) auto
next
  case (Cons c rest)
  from transferChunk_run [OF Cons.prems(1,2), of c "ce_ack (env c)"] obtain m1 where
    t: "transferChunk fileId c (ce_ack (env c)) m =
           (if chunkStore (m_store m) (fileId, c) = None then Inl ChunkDataNotAvailable
            else case ce_ack (env c) of AckSuccess \<Rightarrow> Inr () | AckFailure \<Rightarrow> Inl (ChunkFailed c)
                 | NoAck \<Rightarrow> Inl (ChunkSendTimeout c), m1)" and
    sent1: "sentIndices (m_sent m1) =
           sentIndices (m_sent m) @ (if chunkStore (m_store m) (fileId, c) = None then [] else [c])" and
    same1: "m_store m1 = m_store m" "activeSessions m1 = activeSessions m"
           "transferControllers m1 = transferControllers m"
    by blast
  have stored1: "storedSession m1 fileId = Some session"
    using Cons.prems(2) same1(1) by (simp add: storedSession_def)
  have status1: "statusOf m1 fileId = statusOf m fileId"
    using same1(2) by (simp add: statusOf_def)
  show ?case
  proof (cases "chunkGoesThrough m fileId env c")
    case False
    have stop: "\<exists>e. res = Inl e" and where': "m' = m \<or> m' = m1"
      and sent': "(sentIndices (m_sent m') = sentIndices (m_sent m) \<and>
                   \<not> (\<not> ce_aborted (env c) \<and> chunkStore (m_store m) (fileId, c) \<noteq> None)) \<or>
                  (sentIndices (m_sent m') = sentIndices (m_sent m) @ [c] \<and>
                   \<not> ce_aborted (env c) \<and> chunkStore (m_store m) (fileId, c) \<noteq> None)"
      using False Cons.prems(3) t sent1
      by (auto simp: chunkGoesThrough_def split: if_splits ack.splits)
    from where' have keep: "storedSession m' fileId = Some session" "db (m_store m')"
      "chunkStore (m_store m') = chunkStore (m_store m)" "statusOf m' fileId = statusOf m fileId"
      "transferControllers m' = transferControllers m"
      using Cons.prems(1,2) stored1 status1 same1 by auto
    from sent' show ?thesis
    proof
      assume "sentIndices (m_sent m') = sentIndices (m_sent m) \<and>
              \<not> (\<not> ce_aborted (env c) \<and> chunkStore (m_store m) (fileId, c) \<noteq> None)"
      with stop keep False show ?thesis
        by (intro exI [of _ 0]) auto
    next
      assume "sentIndices (m_sent m') = sentIndices (m_sent m) @ [c] \<and>
              \<not> ce_aborted (env c) \<and> chunkStore (m_store m) (fileId, c) \<noteq> None"
      with stop keep False show ?thesis
        by (intro exI [of _ 0] exI [of _ 1]) auto
    qed
  next
    case True
    then have go: "\<not> ce_aborted (env c)" "ce_ack (env c) = AckSuccess"
      "chunkStore (m_store m) (fileId, c) \<noteq> None"
      by (simp_all add: chunkGoesThrough_def)
    let ?m2 = "updateState fileId (\<lambda>ts. ts\<lparr>ts_transferredChunks := Suc (ts_transferredChunks ts)\<rparr>) m1"
    let ?session = "session\<lparr>s_completedChunks := s_completedChunks session @ [c]\<rparr>"
    have fid: "s_fileId ?session = fileId"
      using storedSession_fileId [OF Cons.prems(2)] by simp
    have db2: "db (m_store ?m2)" using Cons.prems(1) same1(1) by simp
    from saveSession_stored [OF db2 fid] obtain store' where
      save: "saveSession ?session (m_store ?m2) = Inr store'" and
      st': "db store'" "chunkStore store' = chunkStore (m_store ?m2)"
           "find (\<lambda>y. s_fileId y = fileId) (sessionStore store') = Some ?session"
      by blast
    let ?m3 = "?m2\<lparr>m_store := store',
                  m_callbacks := m_callbacks ?m2 @
                    [OnProgress (case activeSessions ?m2 fileId of
                                   None \<Rightarrow> 0 | Some ts \<Rightarrow> ts_transferredChunks ts)]\<rparr>"
    from go(3) obtain chunkData where "chunkStore (m_store m) (fileId, c) = Some chunkData"
      by blast
    with t go(2) have t': "transferChunk fileId c AckSuccess m = (Inr (), m1)"
      by simp
    have step: "resumeLoop fileId env (c # rest) session m = resumeLoop fileId env rest ?session ?m3"
      using go(1,2) t' save by (simp add: Let_def)
    with Cons.prems(3) have run: "resumeLoop fileId env rest ?session ?m3 = (res, m')" by simp
    have db3: "db (m_store ?m3)" using st'(1) by simp
    have stored3: "storedSession ?m3 fileId = Some ?session"
      using st'(3) by (simp add: storedSession_def)
    have cs3: "chunkStore (m_store ?m3) = chunkStore (m_store m)"
      using st'(2) same1(1) by simp
    have status3: "statusOf ?m3 fileId = statusOf m fileId"
      using same1(2) by (simp add: statusOf_def updateState_def split: option.splits)
    have sent3: "sentIndices (m_sent ?m3) = sentIndices (m_sent m) @ [c]"
      using sent1 go(3) by simp
    have ctl3: "transferControllers ?m3 = transferControllers m"
      using same1(3) by simp
    from Cons.IH [OF db3 stored3 run] obtain k j where
      kj: "k \<le> j" "j \<le> Suc k" "j \<le> length rest" and
      thru: "\<forall>i \<in> set (take k rest). chunkGoesThrough ?m3 fileId env i" and
      sent': "sentIndices (m_sent m') = sentIndices (m_sent ?m3) @ take j rest" and
      stored': "storedSession m' fileId =
        Some (?session\<lparr>s_completedChunks := s_completedChunks ?session @ take k rest\<rparr>)" and
      keep: "db (m_store m')" "chunkStore (m_store m') = chunkStore (m_store ?m3)"
        "statusOf m' fileId = statusOf ?m3 fileId"
        "transferControllers m' = transferControllers ?m3" and
      res: "case res of
              Inr s' \<Rightarrow> k = length rest \<and>
                  s' = ?session\<lparr>s_completedChunks := s_completedChunks ?session @ rest\<rparr>
            | Inl e \<Rightarrow> k < length rest \<and> \<not> chunkGoesThrough ?m3 fileId env (rest ! k) \<and>
                 j = (if \<not> ce_aborted (env (rest ! k)) \<and>
                         chunkStore (m_store ?m3) (fileId, rest ! k) \<noteq> None
                      then Suc k else k)"
      by blast
    have thru': "\<forall>i \<in> set (take (Suc k) (c # rest)). chunkGoesThrough m fileId env i"
      using thru True chunkGoesThrough_cong [OF cs3] by auto
    have res': "case res of
        Inr s' \<Rightarrow> Suc k = length (c # rest) \<and>
                  s' = session\<lparr>s_completedChunks := s_completedChunks session @ (c # rest)\<rparr>
      | Inl e \<Rightarrow> Suc k < length (c # rest) \<and> \<not> chunkGoesThrough m fileId env ((c # rest) ! Suc k) \<and>
                 Suc j = (if \<not> ce_aborted (env ((c # rest) ! Suc k)) \<and>
                             chunkStore (m_store m) (fileId, (c # rest) ! Suc k) \<noteq> None
                          then Suc (Suc k) else Suc k)"
      using res chunkGoesThrough_cong [OF cs3] cs3 by (auto split: sum.splits)
    have sent'': "sentIndices (m_sent m') = sentIndices (m_sent m) @ take (Suc j) (c # rest)"
      using sent' sent3 by simp
    have stored'': "storedSession m' fileId =
       Some (session\<lparr>s_completedChunks := s_completedChunks session @ take (Suc k) (c # rest)\<rparr>)"
      using stored' by simp
    from kj thru' sent'' stored'' keep cs3 status3 ctl3 res' show ?thesis
      by (intro exI [of _ "Suc k"] exI [of _ "Suc j"]) simp
  qed
qed


lemma remainingOf_meaning:
  "sorted_wrt (<) (remainingOf S) \<and>
   set (remainingOf S) = {0..<s_totalChunks S} - set (s_completedChunks S)"
  by (auto simp: remainingOf_def sorted_wrt_filter)

text \<open>A resumed transfer on an initialised manager: how far it gets and how it ends.\<close>

lemma resumeTransfer_run:
  fixes fileId env m
  defines "m' \<equiv> snd (resumeTransfer fileId env m)"
  assumes db: "db (m_store m)" and stored: "storedSession m fileId = Some S"
    and act: "activeSessions m fileId = Some ts"
  shows "\<exists>k j. k \<le> j \<and> j \<le> Suc k \<and> j \<le> length (remainingOf S) \<and>
     fst (resumeTransfer fileId env m) = Inr () \<and>
     (\<forall>i \<in> set (take k (remainingOf S)). chunkGoesThrough m fileId env i) \<and>
     sentIndices (m_sent m') = sentIndices (m_sent m) @ take j (remainingOf S) \<and>
     ((k = length (remainingOf S) \<and> statusOf m' fileId = Some Complete \<and>
       storedSession m' fileId =
         Some (S\<lparr>s_completedChunks := s_completedChunks S @ remainingOf S, s_isComplete := True\<rparr>) \<and>
       last (m_callbacks m') = OnComplete) \<or>
      (k < length (remainingOf S) \<and> \<not> chunkGoesThrough m fileId env (remainingOf S ! k) \<and>
       j = (if \<not> ce_aborted (env (remainingOf S ! k)) \<and>
               chunkStore (m_store m) (fileId, remainingOf S ! k) \<noteq> None
            then Suc k else k) \<and>
       statusOf m' fileId = Some Errored \<and>
       storedSession m' fileId =
         Some (S\<lparr>s_completedChunks := s_completedChunks S @ take k (remainingOf S)\<rparr>)))"
proof -
  let ?m1 = "m\<lparr>transferControllers := insert fileId (transferControllers m)\<rparr>"
  let ?m2 = "updateState fileId (\<lambda>ts. ts\<lparr>ts_status := Transferring\<rparr>) ?m1"
  have db2: "db (m_store ?m2)" using db by simp
  have stored2: "storedSession ?m2 fileId = Some S"
    using stored by (simp add: storedSession_def)
  have status2: "statusOf ?m2 fileId = Some Transferring"
    using act by (simp add: statusOf_def updateState_def)
  have cs2: "chunkStore (m_store ?m2) = chunkStore (m_store m)" by simp
  have sent2: "m_sent ?m2 = m_sent m" by simp
  have fid: "s_fileId S = fileId" by (rule storedSession_fileId [OF stored])
  obtain res m3 where loop: "resumeLoop fileId env (remainingOf S) S ?m2 = (res, m3)"
    by fastforce
  from resumeLoop_run [OF db2 stored2 loop] obtain k j where
    kj: "k \<le> j" "j \<le> Suc k" "j \<le> length (remainingOf S)" and
    thru: "\<forall>i \<in> set (take k (remainingOf S)). chunkGoesThrough ?m2 fileId env i" and
    sent3: "sentIndices (m_sent m3) = sentIndices (m_sent ?m2) @ take j (remainingOf S)" and
    stored3: "storedSession m3 fileId =
       Some (S\<lparr>s_completedChunks := s_completedChunks S @ take k (remainingOf S)\<rparr>)" and
    keep: "db (m_store m3)" "chunkStore (m_store m3) = chunkStore (m_store ?m2)"
      "statusOf m3 fileId = statusOf ?m2 fileId" and
    res: "case res of
        Inr s' \<Rightarrow> k = length (remainingOf S) \<and>
                  s' = S\<lparr>s_completedChunks := s_completedChunks S @ remainingOf S\<rparr>
      | Inl e \<Rightarrow> k < length (remainingOf S) \<and>
                 \<not> chunkGoesThrough ?m2 fileId env (remainingOf S ! k) \<and>
                 j = (if \<not> ce_aborted (env (remainingOf S ! k)) \<and>
                         chunkStore (m_store ?m2) (fileId, remainingOf S ! k) \<noteq> None
                      then Suc k else k)"
    by blast
  from keep(3) status2 obtain ts3 where act3: "activeSessions m3 fileId = Some ts3"
    by (auto simp: statusOf_def)
  have thru': "\<forall>i \<in> set (take k (remainingOf S)). chunkGoesThrough m fileId env i"
    using thru chunkGoesThrough_cong [OF cs2] by simp
  have unfold: "resumeTransfer fileId env m =
      (case (res, m3) of
         (Inl e, m3) \<Rightarrow> (Inr (), failTransfer fileId e m3)
       | (Inr session', m3) \<Rightarrow>
           let m4 = updateState fileId (\<lambda>ts. ts\<lparr>ts_status := Complete\<rparr>) m3
           in case saveSession (session'\<lparr>s_isComplete := True\<rparr>) (m_store m4) of
                Inl e \<Rightarrow> (Inr (), failTransfer fileId e m4)
              | Inr store' \<Rightarrow>
                  (Inr (),
                   m4\<lparr>m_store := store',
                      m_callbacks := m_callbacks m4 @ [OnComplete],
                      transferControllers := transferControllers m4 - {fileId}\<rparr>))"
    using db stored act loop
    by (simp add: resumeTransfer_def getSession_stored Let_def remainingOf_def)
  show ?thesis
  proof (cases res)
    case (Inl e)
    with unfold have run: "resumeTransfer fileId env m = (Inr (), failTransfer fileId e m3)"
      by simp
    have m': "m' = failTransfer fileId e m3" by (simp add: m'_def run)
    have "statusOf m' fileId = Some Errored"
      using act3 by (simp add: m' failTransfer_def Let_def statusOf_def updateState_def)
    moreover have "storedSession m' fileId =
         Some (S\<lparr>s_completedChunks := s_completedChunks S @ take k (remainingOf S)\<rparr>)"
      using stored3 by (simp add: m' failTransfer_def Let_def storedSession_def)
    moreover have "sentIndices (m_sent m') = sentIndices (m_sent m) @ take j (remainingOf S)"
      using sent3 by (simp add: m' failTransfer_def Let_def)
    moreover from res Inl have "k < length (remainingOf S)"
      "\<not> chunkGoesThrough m fileId env (remainingOf S ! k)"
      "j = (if \<not> ce_aborted (env (remainingOf S ! k)) \<and>
               chunkStore (m_store m) (fileId, remainingOf S ! k) \<noteq> None
            then Suc k else k)"
      using chunkGoesThrough_cong [OF cs2] by simp_all
    ultimately show ?thesis
      using kj thru' run by (intro exI [of _ k] exI [of _ j]) simp
  next
    case (Inr session')
    with res have k: "k = length (remainingOf S)"
      and s': "session' = S\<lparr>s_completedChunks := s_completedChunks S @ remainingOf S\<rparr>"
      by simp_all
    let ?m4 = "updateState fileId (\<lambda>ts. ts\<lparr>ts_status := Complete\<rparr>) m3"
    let ?final = "session'\<lparr>s_isComplete := True\<rparr>"
    have db4: "db (m_store ?m4)" using keep(1) by simp
    have fid': "s_fileId ?final = fileId" using fid s' by simp
    from saveSession_stored [OF db4 fid'] obtain store' where
      save: "saveSession ?final (m_store ?m4) = Inr store'" and
      st': "find (\<lambda>y. s_fileId y = fileId) (sessionStore store') = Some ?final"
      by blast
    let ?m5 = "?m4\<lparr>m_store := store',
                  m_callbacks := m_callbacks ?m4 @ [OnComplete],
                  transferControllers := transferControllers ?m4 - {fileId}\<rparr>"
    from unfold Inr save have run: "resumeTransfer fileId env m = (Inr (), ?m5)"
      by (simp add: Let_def)
    have m': "m' = ?m5" by (simp add: m'_def run)
    have "statusOf m' fileId = Some Complete"
      using act3 by (simp add: m' statusOf_def updateState_def)
    moreover have "storedSession m' fileId =
         Some (S\<lparr>s_completedChunks := s_completedChunks S @ remainingOf S, s_isComplete := True\<rparr>)"
      using st' s' by (simp add: m' storedSession_def)
    moreover have "last (m_callbacks m') = OnComplete" by (simp add: m')
    moreover have "sentIndices (m_sent m') = sentIndices (m_sent m) @ take j (remainingOf S)"
      using sent3 by (simp add: m')
    ultimately show ?thesis
      using kj thru' run k by (intro exI [of _ k] exI [of _ j]) simp
  qed
qed

text \<open>Nothing remains: the call sends nothing and marks the transfer complete.\<close>

lemma resumeTransfer_noop:
  assumes db: "db (m_store m)" and stored: "storedSession m fileId = Some S"
    and act: "activeSessions m fileId = Some ts" and none: "remainingOf S = []"
  shows "resumeTransfer fileId env m =
    (Inr (),
     m\<lparr>activeSessions := (activeSessions m)(fileId \<mapsto> ts\<lparr>ts_status := Complete\<rparr>),
       m_store := (m_store m)\<lparr>sessionStore :=
          S\<lparr>s_isComplete := True\<rparr> # filter (\<lambda>y. s_fileId y \<noteq> fileId) (sessionStore (m_store m))\<rparr>,
       m_callbacks := m_callbacks m @ [OnComplete],
       transferControllers := transferControllers m - {fileId}\<rparr>)"
proof -
  have fid: "s_fileId S = fileId" by (rule storedSession_fileId [OF stored])
  have rem: "filter (\<lambda>i. i \<notin> set (s_completedChunks S)) [0..<s_totalChunks S] = []"
    using none by (simp add: remainingOf_def)
  show ?thesis
    using db stored act fid
    by (simp add: resumeTransfer_def getSession_stored Let_def rem updateState_def saveSession_def)
qed

text \<open>
  The same in terms of the acknowledged prefix: what is sent, what is persisted and how the
  transfer state ends are determined by the session, the store and the environment.
\<close>

lemma resumeTransfer_exact:
  fixes fileId env m
  defines "m' \<equiv> snd (resumeTransfer fileId env m)"
  assumes db: "db (m_store m)" and stored: "storedSession m fileId = Some S"
    and act: "activeSessions m fileId = Some ts"
  shows "sentIndices (m_sent m') =
           sentIndices (m_sent m) @ acknowledgedOf m fileId env S @ unacknowledgedOf m fileId env S"
    and "acknowledgedOf m fileId env S = remainingOf S \<Longrightarrow>
           unacknowledgedOf m fileId env S = [] \<and>
           statusOf m' fileId = Some Complete \<and>
           storedSession m' fileId =
             Some (S\<lparr>s_completedChunks := s_completedChunks S @ remainingOf S,
                     s_isComplete := True\<rparr>) \<and>
           last (m_callbacks m') = OnComplete"
    and "acknowledgedOf m fileId env S \<noteq> remainingOf S \<Longrightarrow>
           statusOf m' fileId = Some Errored \<and>
           storedSession m' fileId =
             Some (S\<lparr>s_completedChunks := s_completedChunks S @ acknowledgedOf m fileId env S\<rparr>)"
proof -
  let ?R = "remainingOf S"
  let ?P = "chunkGoesThrough m fileId env"
  from resumeTransfer_run [OF db stored act, of env] obtain k j where
    kj: "k \<le> j" "j \<le> Suc k" "j \<le> length ?R" and
    thru: "\<forall>i \<in> set (take k ?R). ?P i" and
    sent: "sentIndices (m_sent m') = sentIndices (m_sent m) @ take j ?R" and
    ends: "(k = length ?R \<and> statusOf m' fileId = Some Complete \<and>
       storedSession m' fileId =
         Some (S\<lparr>s_completedChunks := s_completedChunks S @ ?R, s_isComplete := True\<rparr>) \<and>
       last (m_callbacks m') = OnComplete) \<or>
      (k < length ?R \<and> \<not> ?P (?R ! k) \<and>
       j = (if \<not> ce_aborted (env (?R ! k)) \<and> chunkStore (m_store m) (fileId, ?R ! k) \<noteq> None
            then Suc k else k) \<and>
       statusOf m' fileId = Some Errored \<and>
       storedSession m' fileId =
         Some (S\<lparr>s_completedChunks := s_completedChunks S @ take k ?R\<rparr>))"
    unfolding m'_def by blast
  have pre: "?P (?R ! i)" if "i < k" "i < length ?R" for i
  proof -
    from that have "?R ! i = take k ?R ! i" "i < length (take k ?R)" by simp_all
    then have "?R ! i \<in> set (take k ?R)" by (metis nth_mem)
    with thru show ?thesis by blast
  qed
  have stop: "k < length ?R \<Longrightarrow> \<not> ?P (?R ! k)"
    using ends by auto
  have tw: "takeWhile ?P ?R = take k ?R"
    by (rule takeWhile_eq_take_P_nth) (use pre stop in auto)
  have lenk: "length (take k ?R) = k"
    using kj by simp
  have dw: "dropWhile ?P ?R = drop k ?R"
    using dropWhile_eq_drop [of ?P ?R] by (simp only: tw lenk)
  have ack: "acknowledgedOf m fileId env S = take k ?R"
    by (simp add: acknowledgedOf_def tw)
  have whole: "acknowledgedOf m fileId env S = ?R \<longleftrightarrow> k = length ?R"
  proof
    assume "acknowledgedOf m fileId env S = ?R"
    then have "length (take k ?R) = length ?R" by (simp only: ack)
    with lenk show "k = length ?R" by simp
  next
    assume "k = length ?R"
    then show "acknowledgedOf m fileId env S = ?R" by (simp add: ack)
  qed
  show "sentIndices (m_sent m') =
           sentIndices (m_sent m) @ acknowledgedOf m fileId env S @ unacknowledgedOf m fileId env S"
  proof (cases "k = length ?R")
    case True
    then have "unacknowledgedOf m fileId env S = []"
      by (simp add: unacknowledgedOf_def dw)
    moreover from True kj have "take j ?R = take k ?R" by simp
    ultimately show ?thesis using sent by (simp add: ack)
  next
    case False
    with kj have lt: "k < length ?R" by simp
    with ends have j: "j = (if \<not> ce_aborted (env (?R ! k)) \<and>
                               chunkStore (m_store m) (fileId, ?R ! k) \<noteq> None
                            then Suc k else k)"
      by auto
    have "dropWhile ?P ?R = ?R ! k # drop (Suc k) ?R"
      unfolding dw using lt by (simp add: Cons_nth_drop_Suc)
    then have un: "unacknowledgedOf m fileId env S =
        (if \<not> ce_aborted (env (?R ! k)) \<and> chunkStore (m_store m) (fileId, ?R ! k) \<noteq> None
         then [?R ! k] else [])"
      by (simp add: unacknowledgedOf_def)
    have "take j ?R = take k ?R @ unacknowledgedOf m fileId env S"
      unfolding un j using lt by (simp add: take_Suc_conv_app_nth)
    with sent show ?thesis by (simp add: ack)
  qed
  show "unacknowledgedOf m fileId env S = [] \<and>
           statusOf m' fileId = Some Complete \<and>
           storedSession m' fileId =
             Some (S\<lparr>s_completedChunks := s_completedChunks S @ remainingOf S,
                     s_isComplete := True\<rparr>) \<and>
           last (m_callbacks m') = OnComplete"
    if "acknowledgedOf m fileId env S = remainingOf S"
  proof -
    from that whole have k: "k = length ?R" by simp
    then have "unacknowledgedOf m fileId env S = []"
      by (simp add: unacknowledgedOf_def dw)
    with ends k show ?thesis by simp
  qed
  show "statusOf m' fileId = Some Errored \<and>
           storedSession m' fileId =
             Some (S\<lparr>s_completedChunks := s_completedChunks S @ acknowledgedOf m fileId env S\<rparr>)"
    if "acknowledgedOf m fileId env S \<noteq> remainingOf S"
  proof -
    from that whole have "k \<noteq> length ?R" by simp
    with ends show ?thesis by (simp add: ack)
  qed
qed

section \<open>Claims about the session manager\<close>

text \<open>
  C4 (resumption). Let a session \<open>S\<close> be persisted and its transfer state initialised. The
  remaining indices are those of \<open>0 .. totalChunks - 1\<close> that are not in \<open>completedChunks\<close>, in
  increasing order. The acknowledged indices are the longest prefix of the remaining ones
  whose chunks are all in the store and acknowledged with success while the transfer is not
  aborted. \<^verbatim>\<open>resumeTransfer\<close> sends the chunks of the acknowledged indices, in order, and after
  them at most the first remaining chunk that is not acknowledged; it sends no other chunk,
  so none whose index is in \<open>completedChunks\<close>. Every acknowledged index, and no other, is
  appended to \<open>completedChunks\<close> of the persisted session, also when the run then fails, in
  which case the transfer state ends as an error. When every remaining chunk goes through,
  exactly the remaining indices are sent, the transfer state is complete, the persisted
  session has them all appended and is marked complete, and \<^verbatim>\<open>onComplete\<close> is called. When
  \<open>completedChunks\<close> already covers \<open>0 .. totalChunks - 1\<close>, nothing is sent and the transfer is
  marked complete, and calling \<^verbatim>\<open>resumeTransfer\<close> again does the same.
\<close>

theorem resume_sends_remaining:
  assumes "db (m_store m)" and "storedSession m fileId = Some S"
    and "activeSessions m fileId = Some ts"
  shows
   "fst (resumeTransfer fileId env m) = Inr () \<and>
    sorted_wrt (<) (remainingOf S) \<and>
    set (remainingOf S) = {0..<s_totalChunks S} - set (s_completedChunks S) \<and>
    (\<forall>i \<in> set (acknowledgedOf m fileId env S). chunkGoesThrough m fileId env i) \<and>
    (\<exists>rest. remainingOf S = acknowledgedOf m fileId env S @ rest \<and>
            (rest \<noteq> [] \<longrightarrow> \<not> chunkGoesThrough m fileId env (hd rest)) \<and>
            unacknowledgedOf m fileId env S =
              (if rest \<noteq> [] \<and> \<not> ce_aborted (env (hd rest)) \<and>
                  chunkStore (m_store m) (fileId, hd rest) \<noteq> None
               then [hd rest] else [])) \<and>
    sentIndices (m_sent (snd (resumeTransfer fileId env m))) =
      sentIndices (m_sent m) @ acknowledgedOf m fileId env S @ unacknowledgedOf m fileId env S \<and>
    (acknowledgedOf m fileId env S \<noteq> remainingOf S \<longrightarrow>
       statusOf (snd (resumeTransfer fileId env m)) fileId = Some Errored \<and>
       storedSession (snd (resumeTransfer fileId env m)) fileId =
         Some (S\<lparr>s_completedChunks := s_completedChunks S @ acknowledgedOf m fileId env S\<rparr>)) \<and>
    (acknowledgedOf m fileId env S = remainingOf S \<longrightarrow>
       sentIndices (m_sent (snd (resumeTransfer fileId env m))) =
         sentIndices (m_sent m) @ remainingOf S \<and>
       statusOf (snd (resumeTransfer fileId env m)) fileId = Some Complete \<and>
       storedSession (snd (resumeTransfer fileId env m)) fileId =
         Some (S\<lparr>s_completedChunks := s_completedChunks S @ remainingOf S,
                 s_isComplete := True\<rparr>) \<and>
       last (m_callbacks (snd (resumeTransfer fileId env m))) = OnComplete) \<and>
    ((\<forall>i \<in> set (remainingOf S). chunkGoesThrough m fileId env i) \<longrightarrow>
       sentIndices (m_sent (snd (resumeTransfer fileId env m))) =
         sentIndices (m_sent m) @ remainingOf S \<and>
       statusOf (snd (resumeTransfer fileId env m)) fileId = Some Complete \<and>
       storedSession (snd (resumeTransfer fileId env m)) fileId =
         Some (S\<lparr>s_completedChunks := s_completedChunks S @ remainingOf S,
                 s_isComplete := True\<rparr>) \<and>
       last (m_callbacks (snd (resumeTransfer fileId env m))) = OnComplete) \<and>
    ({0..<s_totalChunks S} \<subseteq> set (s_completedChunks S) \<longrightarrow>
       m_sent (snd (resumeTransfer fileId env m)) = m_sent m \<and>
       statusOf (snd (resumeTransfer fileId env m)) fileId = Some Complete \<and>
       storedSession (snd (resumeTransfer fileId env m)) fileId = Some (S\<lparr>s_isComplete := True\<rparr>) \<and>
       last (m_callbacks (snd (resumeTransfer fileId env m))) = OnComplete \<and>
       (\<forall>env'.
          fst (resumeTransfer fileId env' (snd (resumeTransfer fileId env m))) = Inr () \<and>
          m_sent (snd (resumeTransfer fileId env' (snd (resumeTransfer fileId env m)))) = m_sent m \<and>
          statusOf (snd (resumeTransfer fileId env' (snd (resumeTransfer fileId env m)))) fileId =
            Some Complete \<and>
          storedSession (snd (resumeTransfer fileId env' (snd (resumeTransfer fileId env m)))) fileId =
            Some (S\<lparr>s_isComplete := True\<rparr>) \<and>
          last (m_callbacks (snd (resumeTransfer fileId env' (snd (resumeTransfer fileId env m))))) =
            OnComplete))"
proof -
  let ?m' = "snd (resumeTransfer fileId env m)"
  let ?R = "remainingOf S"
  let ?P = "chunkGoesThrough m fileId env"
  let ?A = "acknowledgedOf m fileId env S"
  let ?U = "unacknowledgedOf m fileId env S"
  note exact = resumeTransfer_exact [OF assms, of env]
  have ok: "fst (resumeTransfer fileId env m) = Inr ()"
    using resumeTransfer_run [OF assms, of env] by blast
  have through: "\<forall>i \<in> set ?A. ?P i"
    by (auto simp: acknowledgedOf_def dest: set_takeWhileD)
  have split: "\<exists>rest. ?R = ?A @ rest \<and> (rest \<noteq> [] \<longrightarrow> \<not> ?P (hd rest)) \<and>
                 ?U = (if rest \<noteq> [] \<and> \<not> ce_aborted (env (hd rest)) \<and>
                          chunkStore (m_store m) (fileId, hd rest) \<noteq> None
                       then [hd rest] else [])"
  proof (intro exI [of _ "dropWhile ?P ?R"] conjI)
    show "?R = ?A @ dropWhile ?P ?R"
      by (simp add: acknowledgedOf_def)
    show "dropWhile ?P ?R \<noteq> [] \<longrightarrow> \<not> ?P (hd (dropWhile ?P ?R))"
      using hd_dropWhile [of ?P ?R] by blast
    show "?U = (if dropWhile ?P ?R \<noteq> [] \<and> \<not> ce_aborted (env (hd (dropWhile ?P ?R))) \<and>
                   chunkStore (m_store m) (fileId, hd (dropWhile ?P ?R)) \<noteq> None
                then [hd (dropWhile ?P ?R)] else [])"
      by (simp add: unacknowledgedOf_def del: dropWhile_eq_Nil_conv split: list.split)
  qed
  have failure: "?A \<noteq> ?R \<longrightarrow>
       statusOf ?m' fileId = Some Errored \<and>
       storedSession ?m' fileId = Some (S\<lparr>s_completedChunks := s_completedChunks S @ ?A\<rparr>)"
    using exact(3) by blast
  have complete: "?A = ?R \<longrightarrow>
       sentIndices (m_sent ?m') = sentIndices (m_sent m) @ ?R \<and>
       statusOf ?m' fileId = Some Complete \<and>
       storedSession ?m' fileId =
         Some (S\<lparr>s_completedChunks := s_completedChunks S @ ?R, s_isComplete := True\<rparr>) \<and>
       last (m_callbacks ?m') = OnComplete"
  proof
    assume all: "?A = ?R"
    from exact(2) [OF all] exact(1) all
    show "sentIndices (m_sent ?m') = sentIndices (m_sent m) @ ?R \<and>
       statusOf ?m' fileId = Some Complete \<and>
       storedSession ?m' fileId =
         Some (S\<lparr>s_completedChunks := s_completedChunks S @ ?R, s_isComplete := True\<rparr>) \<and>
       last (m_callbacks ?m') = OnComplete"
      by simp
  qed
  have success: "(\<forall>i \<in> set ?R. ?P i) \<longrightarrow>
       sentIndices (m_sent ?m') = sentIndices (m_sent m) @ ?R \<and>
       statusOf ?m' fileId = Some Complete \<and>
       storedSession ?m' fileId =
         Some (S\<lparr>s_completedChunks := s_completedChunks S @ ?R, s_isComplete := True\<rparr>) \<and>
       last (m_callbacks ?m') = OnComplete"
  proof
    assume "\<forall>i \<in> set ?R. ?P i"
    then have "?A = ?R"
      by (simp add: acknowledgedOf_def)
    with complete show "sentIndices (m_sent ?m') = sentIndices (m_sent m) @ ?R \<and>
       statusOf ?m' fileId = Some Complete \<and>
       storedSession ?m' fileId =
         Some (S\<lparr>s_completedChunks := s_completedChunks S @ ?R, s_isComplete := True\<rparr>) \<and>
       last (m_callbacks ?m') = OnComplete"
      by blast
  qed
  have noop: "{0..<s_totalChunks S} \<subseteq> set (s_completedChunks S) \<longrightarrow>
       m_sent ?m' = m_sent m \<and>
       statusOf ?m' fileId = Some Complete \<and>
       storedSession ?m' fileId = Some (S\<lparr>s_isComplete := True\<rparr>) \<and>
       last (m_callbacks ?m') = OnComplete \<and>
       (\<forall>env'.
          fst (resumeTransfer fileId env' ?m') = Inr () \<and>
          m_sent (snd (resumeTransfer fileId env' ?m')) = m_sent m \<and>
          statusOf (snd (resumeTransfer fileId env' ?m')) fileId = Some Complete \<and>
          storedSession (snd (resumeTransfer fileId env' ?m')) fileId =
            Some (S\<lparr>s_isComplete := True\<rparr>) \<and>
          last (m_callbacks (snd (resumeTransfer fileId env' ?m'))) = OnComplete)"
  proof
    assume covered: "{0..<s_totalChunks S} \<subseteq> set (s_completedChunks S)"
    then have none: "remainingOf S = []"
      by (auto simp: remainingOf_def filter_empty_conv)
    have fid: "s_fileId S = fileId" by (rule storedSession_fileId [OF assms(2)])
    note first = resumeTransfer_noop [OF assms none, of env]
    have db': "db (m_store ?m')" using assms(1) by (simp add: first)
    have stored': "storedSession ?m' fileId = Some (S\<lparr>s_isComplete := True\<rparr>)"
      using fid by (simp add: first storedSession_def)
    have act': "activeSessions ?m' fileId = Some (ts\<lparr>ts_status := Complete\<rparr>)"
      by (simp add: first)
    have none': "remainingOf (S\<lparr>s_isComplete := True\<rparr>) = []"
      using none by (simp add: remainingOf_def)
    have one: "m_sent ?m' = m_sent m" "statusOf ?m' fileId = Some Complete"
      "last (m_callbacks ?m') = OnComplete"
      by (simp_all add: first statusOf_def)
    have two: "fst (resumeTransfer fileId env' ?m') = Inr () \<and>
          m_sent (snd (resumeTransfer fileId env' ?m')) = m_sent m \<and>
          statusOf (snd (resumeTransfer fileId env' ?m')) fileId = Some Complete \<and>
          storedSession (snd (resumeTransfer fileId env' ?m')) fileId =
            Some (S\<lparr>s_isComplete := True\<rparr>) \<and>
          last (m_callbacks (snd (resumeTransfer fileId env' ?m'))) = OnComplete" for env'
      unfolding resumeTransfer_noop [OF db' stored' act' none', of env']
      using one(1) fid by (simp add: statusOf_def storedSession_def)
    from one stored' two show "m_sent ?m' = m_sent m \<and>
       statusOf ?m' fileId = Some Complete \<and>
       storedSession ?m' fileId = Some (S\<lparr>s_isComplete := True\<rparr>) \<and>
       last (m_callbacks ?m') = OnComplete \<and>
       (\<forall>env'.
          fst (resumeTransfer fileId env' ?m') = Inr () \<and>
          m_sent (snd (resumeTransfer fileId env' ?m')) = m_sent m \<and>
          statusOf (snd (resumeTransfer fileId env' ?m')) fileId = Some Complete \<and>
          storedSession (snd (resumeTransfer fileId env' ?m')) fileId =
            Some (S\<lparr>s_isComplete := True\<rparr>) \<and>
          last (m_callbacks (snd (resumeTransfer fileId env' ?m'))) = OnComplete)"
      by blast
  qed
  show ?thesis
    using ok remainingOf_meaning [of S] through split exact(1) failure complete success noop
    by (intro conjI) blast+
qed

theorem resume_sends_remaining_witness:
  "sentIndices (m_sent (snd (resumeTransfer ''f1'' allSucceed exampleManager))) = [1, 2] \<and>
   statusOf (snd (resumeTransfer ''f1'' allSucceed exampleManager)) ''f1'' = Some Complete \<and>
   storedSession (snd (resumeTransfer ''f1'' allSucceed exampleManager)) ''f1'' =
     Some (exampleSession\<lparr>s_completedChunks := [0, 1, 2], s_isComplete := True\<rparr>) \<and>
   sentIndices (m_sent (snd (resumeTransfer ''f1'' lastAckLost exampleManager))) = [1, 2] \<and>
   statusOf (snd (resumeTransfer ''f1'' lastAckLost exampleManager)) ''f1'' = Some Errored \<and>
   storedSession (snd (resumeTransfer ''f1'' lastAckLost exampleManager)) ''f1'' =
     Some (exampleSession\<lparr>s_completedChunks := [0, 1]\<rparr>)"
proof -
  have db: "db (m_store exampleManager)" by (simp add: exampleManager_def)
  have stored: "storedSession exampleManager ''f1'' = Some exampleSession"
    by (simp add: storedSession_def exampleManager_def exampleSession_def)
  have act: "activeSessions exampleManager ''f1'' =
      Some \<lparr>ts_status = Idle, ts_transferredChunks = 1, ts_totalChunks = 3,
            ts_canResume = True, ts_error = None\<rparr>"
    by (simp add: exampleManager_def)
  have rem: "remainingOf exampleSession = [1, 2]"
    by (simp add: remainingOf_def exampleSession_def upt_rec)
  have ackA: "acknowledgedOf exampleManager ''f1'' allSucceed exampleSession = [1, 2]"
    by (simp add: acknowledgedOf_def rem chunkGoesThrough_def allSucceed_def exampleManager_def)
  have unA: "unacknowledgedOf exampleManager ''f1'' allSucceed exampleSession = []"
    by (simp add: unacknowledgedOf_def rem chunkGoesThrough_def allSucceed_def exampleManager_def)
  have ackL: "acknowledgedOf exampleManager ''f1'' lastAckLost exampleSession = [1]"
    by (simp add: acknowledgedOf_def rem chunkGoesThrough_def lastAckLost_def exampleManager_def)
  have unL: "unacknowledgedOf exampleManager ''f1'' lastAckLost exampleSession = [2]"
    by (simp add: unacknowledgedOf_def rem chunkGoesThrough_def lastAckLost_def exampleManager_def)
  have none: "sentIndices (m_sent exampleManager) = []"
    by (simp add: exampleManager_def sentIndices_def)
  from resume_sends_remaining [OF db stored act, of allSucceed] have
    "sentIndices (m_sent (snd (resumeTransfer ''f1'' allSucceed exampleManager))) = [1, 2]"
    "statusOf (snd (resumeTransfer ''f1'' allSucceed exampleManager)) ''f1'' = Some Complete"
    "storedSession (snd (resumeTransfer ''f1'' allSucceed exampleManager)) ''f1'' =
       Some (exampleSession\<lparr>s_completedChunks := s_completedChunks exampleSession @ [1, 2],
                             s_isComplete := True\<rparr>)"
    unfolding ackA unA rem none by simp_all
  moreover
  from resume_sends_remaining [OF db stored act, of lastAckLost] have
    "sentIndices (m_sent (snd (resumeTransfer ''f1'' lastAckLost exampleManager))) = [1, 2]"
    "statusOf (snd (resumeTransfer ''f1'' lastAckLost exampleManager)) ''f1'' = Some Errored"
    "storedSession (snd (resumeTransfer ''f1'' lastAckLost exampleManager)) ''f1'' =
       Some (exampleSession\<lparr>s_completedChunks := s_completedChunks exampleSession @ [1]\<rparr>)"
    unfolding ackL unL rem none by simp_all
  ultimately show ?thesis
    by (simp add: exampleSession_def)
qed

section \<open>Digests of concrete buffers\<close>

text \<open>The model agrees with the standard test vectors: the empty message and \<open>abc\<close>.\<close>

lemma sha256_empty:
  "toHex (sha256 []) = ''e3b0c44298fc1c149afbf4c8996fb92427ae41e4649b934ca495991b7852b855''"
  by code_simp

lemma sha256_abc:
  "toHex (sha256 [0x61, 0x62, 0x63]) =
     ''ba7816bf8f01cfea414140de5dae2223b00361a396177a9cb410ff61f20015ad''"
  by code_simp

text \<open>A message of 56 bytes, which is padded to two blocks.\<close>

lemma sha256_two_blocks:
  "toHex (sha256
       [0x61, 0x62, 0x63, 0x64, 0x62, 0x63, 0x64, 0x65,
        0x63, 0x64, 0x65, 0x66, 0x64, 0x65, 0x66, 0x67,
        0x65, 0x66, 0x67, 0x68, 0x66, 0x67, 0x68, 0x69,
        0x67, 0x68, 0x69, 0x6a, 0x68, 0x69, 0x6a, 0x6b,
        0x69, 0x6a, 0x6b, 0x6c, 0x6a, 0x6b, 0x6c, 0x6d,
        0x6b, 0x6c, 0x6d, 0x6e, 0x6c, 0x6d, 0x6e, 0x6f,
        0x6d, 0x6e, 0x6f, 0x70, 0x6e, 0x6f, 0x70, 0x71]) =
     ''248d6a61d20638b8e5c026930c3e6039a33ce45964ff2167f6ecedd419db06c1''"
  by code_simp

text \<open>The digest of the one-byte buffer \<open>a\<close>, and the digest of that digest.\<close>

lemma sha256_a:
  "sha256 [0x61] =
     [0xca, 0x97, 0x81, 0x12, 0xca, 0x1b, 0xbd, 0xca,
     0xfa, 0xc2, 0x31, 0xb3, 0x9a, 0x23, 0xdc, 0x4d,
     0xa7, 0x86, 0xef, 0xf8, 0x14, 0x7c, 0x4e, 0x72,
     0xb9, 0x80, 0x77, 0x85, 0xaf, 0xee, 0x48, 0xbb]"
  by code_simp


section \<open>The two fingerprints\<close>


section \<open>A single download, end to end\<close>

text \<open>
  With one download in the slot, the \<^verbatim>\<open>file-start\<close> and the only \<^verbatim>\<open>file-chunk\<close> of the one-byte
  file \<open>a\<close> are acknowledged, verified and confirmed.
\<close>

lemma single_download_completes:
  "outbox (onData (FileChunk ''a.txt'' 0 1 (Binary [0x61]) True)
     (onData (FileStart ''a.txt'' 1 ''text/plain'' 1
                ''ca978112ca1bbdcafac231b39a23dc4da786eff8147c4e72b9807785afee48bb'')
        (downloadFile ''a.txt'' idleDownloader))) =
   [RequestFile ''a.txt'', ChunkAck ''a.txt'' 0,
    FileComplete ''a.txt'' True 1
      ''ca978112ca1bbdcafac231b39a23dc4da786eff8147c4e72b9807785afee48bb'']"
proof -
  have hex: "toHex (sha256 [0x61]) =
      ''ca978112ca1bbdcafac231b39a23dc4da786eff8147c4e72b9807785afee48bb''"
    unfolding sha256_a by code_simp
  show ?thesis
    by (simp add: onData_def handleFileChunk_def downloadHandler_def downloadFile_def
        idleDownloader_def newDownload_def completeFileDownload_def scanChunks_def Let_def hex)
qed

end
